theory Spec2Isabelle
  imports Complex_Main "HOL-Library.Product_Lexorder"
begin

section \<open>Data model\<close>

text \<open>
  A profile is the table of one transect after \<open>set_index("x", drop=False)\<close>: its rows in
  file order, each row the pair of the distance \<open>x\<close> (which is also the row's index label)
  and the elevation \<open>y\<close>. The float columns are modelled by real numbers, so rounding is
  not part of the model; NaN, which pandas produces for incomplete windows and shifted-in
  cells, is \<open>None\<close> in a series of optional values.

  Label lookups and label slices (\<open>.loc[a:b]\<close>) are modelled for an index that is strictly
  increasing, the only kind of profile the data model admits: on such an index pandas
  finds the slice bounds by binary search, that is by comparison with the labels.
\<close>

type_synonym sample = "real \<times> real"

type_synonym profile = "sample list"

datatype error = ValueError | KeyError | IndexError | TypeError

definition increasing :: "profile \<Rightarrow> bool" where
  "increasing p = sorted_wrt (<) (map fst p)"

text \<open>\<open>df.loc[a:b]\<close> and \<open>df.loc[a:]\<close> on an increasing index: both bounds inclusive.\<close>

definition loc_from :: "real \<Rightarrow> profile \<Rightarrow> profile" where
  "loc_from a p = dropWhile (\<lambda>s. fst s < a) p"

definition loc_slice :: "real \<Rightarrow> real \<Rightarrow> profile \<Rightarrow> profile" where
  "loc_slice a b p = takeWhile (\<lambda>s. fst s \<le> b) (loc_from a p)"

subsection \<open>Slices of an increasing profile\<close>

lemma loc_from_filter:
  "increasing p \<Longrightarrow> loc_from a p = filter (\<lambda>s. a \<le> fst s) p"
proof (induction p)
  case Nil
  then show ?case by (simp add: loc_from_def)
next
  case (Cons s p)
  have inc: "increasing p" using Cons.prems by (simp add: increasing_def)
  show ?case
  proof (cases "fst s < a")
    case True
    then show ?thesis using Cons.IH [OF inc] by (simp add: loc_from_def)
  next
    case False
    have "\<forall>t\<in>set p. a \<le> fst t" using Cons.prems False by (auto simp: increasing_def)
    then have "filter (\<lambda>s. a \<le> fst s) p = p" by (simp add: filter_id_conv)
    then show ?thesis using False by (simp add: loc_from_def)
  qed
qed

lemma takeWhile_le_filter:
  "increasing p \<Longrightarrow> takeWhile (\<lambda>s. fst s \<le> b) p = filter (\<lambda>s. fst s \<le> b) p"
proof (induction p)
  case Nil
  then show ?case by simp
next
  case (Cons s p)
  have inc: "increasing p" using Cons.prems by (simp add: increasing_def)
  show ?case
  proof (cases "fst s \<le> b")
    case True
    then show ?thesis using Cons.IH [OF inc] by simp
  next
    case False
    have "\<forall>t\<in>set p. \<not> fst t \<le> b" using Cons.prems False by (auto simp: increasing_def)
    then have "filter (\<lambda>s. fst s \<le> b) p = []" by (simp add: filter_empty_conv)
    then show ?thesis using False by simp
  qed
qed

lemma increasing_filter: "increasing p \<Longrightarrow> increasing (filter P p)"
  by (simp add: increasing_def sorted_wrt_filter filter_map comp_def sorted_wrt_map)

lemma loc_slice_filter:
  "increasing p \<Longrightarrow> loc_slice a b p = filter (\<lambda>s. a \<le> fst s \<and> fst s \<le> b) p"
  by (simp add: loc_slice_def loc_from_filter takeWhile_le_filter increasing_filter)

section \<open>Series\<close>

text \<open>
  A pandas Series of floats is the list of its cells in row order, \<open>None\<close> for NaN. The
  cells of a profile are never NaN; NaN enters through \<open>shift\<close> (the cells shifted in)
  and through the rolling and expanding windows that hold too few observations.
\<close>

type_synonym series = "real option list"

text \<open>\<open>s.shift(k)\<close>: the cells move k rows down (up for negative k), NaN is shifted in.\<close>

definition shift :: "int \<Rightarrow> series \<Rightarrow> series" where
  "shift k s =
     (if 0 \<le> k then take (length s) (replicate (nat k) None @ s)
      else drop (nat (- k)) s @ replicate (min (nat (- k)) (length s)) None)"

text \<open>\<open>s.rolling(w).min()\<close> and \<open>.max()\<close>: the window of row i is the w rows ending at i;
  with the default \<open>min_periods = w\<close> the result is NaN unless the window is complete and
  free of NaN.\<close>

definition rolling :: "nat \<Rightarrow> (real list \<Rightarrow> real) \<Rightarrow> series \<Rightarrow> series" where
  "rolling w agg s =
     map (\<lambda>i. if Suc i < w then None else map_option agg (those (take w (drop (Suc i - w) s))))
       [0..<length s]"

definition lowest :: "real list \<Rightarrow> real" where
  "lowest l = Min (set l)"

definition highest :: "real list \<Rightarrow> real" where
  "highest l = Max (set l)"

text \<open>\<open>s.expanding(min_periods=1).max()\<close>: the maximum of the cells up to row i that are not
  NaN, NaN when there is none.\<close>

definition expanding_max :: "series \<Rightarrow> series" where
  "expanding_max s =
     map (\<lambda>i. case List.map_filter id (take (Suc i) s) of [] \<Rightarrow> None | v # vs \<Rightarrow> Some (highest (v # vs)))
       [0..<length s]"

text \<open>Arithmetic and comparisons cell by cell: NaN propagates through arithmetic, and every
  comparison with NaN is false. A zero divisor arises only from a repeated x, which the
  data model excludes; the cell is NaN in the model.\<close>

fun lift2 :: "(real \<Rightarrow> real \<Rightarrow> 'a) \<Rightarrow> real option \<Rightarrow> real option \<Rightarrow> 'a option" where
  "lift2 f (Some u) (Some v) = Some (f u v)"
| "lift2 f _ _ = None"

definition ssub :: "series \<Rightarrow> series \<Rightarrow> series" where
  "ssub a b = map2 (\<lambda>u v. lift2 (-) u v) a b"

definition sdiv :: "series \<Rightarrow> series \<Rightarrow> series" where
  "sdiv a b = map2 (\<lambda>u v. if v = Some 0 then None else lift2 (/) u v) a b"

definition sgt :: "series \<Rightarrow> series \<Rightarrow> bool list" where
  "sgt a b = map2 (\<lambda>u v. lift2 (>) u v = Some True) a b"

definition sgt_c :: "series \<Rightarrow> real \<Rightarrow> bool list" where
  "sgt_c a c = map (\<lambda>u. lift2 (>) u (Some c) = Some True) a"

definition sge_c :: "series \<Rightarrow> real \<Rightarrow> bool list" where
  "sge_c a c = map (\<lambda>u. lift2 (\<ge>) u (Some c) = Some True) a"

text \<open>\<open>b.idxmax()\<close> on a Boolean series: the label of the first True, the first label when
  all are False, ValueError on an empty series. \<open>b[label]\<close> is the cell at that label.\<close>

fun first_true :: "bool list \<Rightarrow> nat option" where
  "first_true [] = None"
| "first_true (b # bs) = (if b then Some 0 else map_option Suc (first_true bs))"

definition idxmax :: "real list \<Rightarrow> bool list \<Rightarrow> error + real" where
  "idxmax idx b =
     (if b = [] then Inl ValueError
      else Inr (idx ! (case first_true b of None \<Rightarrow> 0 | Some i \<Rightarrow> i)))"

definition getitem :: "real list \<Rightarrow> 'a list \<Rightarrow> real \<Rightarrow> error + 'a" where
  "getitem idx vals l = (case map_of (zip idx vals) l of None \<Rightarrow> Inl KeyError | Some v \<Rightarrow> Inr v)"

text \<open>Boolean series: \<open>a & b\<close>, \<open>~a\<close>, and the selection \<open>df[mask]\<close>.\<close>

definition band :: "bool list \<Rightarrow> bool list \<Rightarrow> bool list" where
  "band a b = map2 (\<and>) a b"

definition bnot :: "bool list \<Rightarrow> bool list" where
  "bnot a = map Not a"

definition select :: "'a list \<Rightarrow> bool list \<Rightarrow> 'a list" where
  "select rows keep = map fst (filter snd (zip rows keep))"

text \<open>\<open>v.idxmin()\<close> on a series without NaN: the label of the first minimum, ValueError on an
  empty series.\<close>

definition idxmin :: "real list \<Rightarrow> real list \<Rightarrow> error + real" where
  "idxmin idx v =
     (if v = [] then Inl ValueError
      else Inr (idx ! length (takeWhile (\<lambda>u. u \<noteq> lowest v) v)))"

text \<open>A column of the profile as a series.\<close>

definition column :: "real list \<Rightarrow> series" where
  "column v = map Some v"

section \<open>Landmark detector\<close>

subsection \<open>The four searches and their chain\<close>

definition identify_shore :: "profile \<Rightarrow> error + real option" where
  "identify_shore profile_xy =
     (let x = column (map fst profile_xy);
          y = column (map snd profile_xy);
          slope = sdiv (ssub y (shift 1 y)) (ssub x (shift 1 x));
          filtered = band (band (sgt_c y 0) (sgt y (expanding_max (shift 1 y))))
                       (sge_c (shift (- 4) (rolling 5 lowest slope)) 0)
      in case idxmax (map fst profile_xy) filtered of
           Inl e \<Rightarrow> Inl e
         | Inr x_coord \<Rightarrow>
             (case getitem (map fst profile_xy) filtered x_coord of
                Inl e \<Rightarrow> Inl e
              | Inr hit \<Rightarrow> if hit then Inr None else Inr (Some x_coord)))"

definition identify_crest :: "profile \<Rightarrow> real \<Rightarrow> error + real option" where
  "identify_crest profile_xy shore_x =
     (let subset = loc_from shore_x profile_xy;
          y = column (map snd subset);
          filtered = band (band (sgt y (expanding_max (shift 1 y)))
                                (sgt_c (ssub y (shift (- 20) (rolling 20 lowest y))) (6 / 10)))
                       (sgt y (shift (- 10) (rolling 10 highest y)))
      in case idxmax (map fst subset) filtered of
           Inl e \<Rightarrow> Inl e
         | Inr x_coord \<Rightarrow>
             (case getitem (map fst subset) filtered x_coord of
                Inl e \<Rightarrow> Inl e
              | Inr hit \<Rightarrow> if hit = False then Inr None else Inr (Some x_coord)))"

text \<open>
  \<open>numpy.polyfit(x, y, deg=3)\<close> is a library routine and a parameter of the model: it
  maps the x and y of the sub-range to the coefficients (A, B, C, D) of a cubic, highest
  degree first. It raises TypeError on an empty x.
\<close>

type_synonym cubic = "real \<times> real \<times> real \<times> real"

type_synonym fit = "real list \<Rightarrow> real list \<Rightarrow> cubic"

definition identify_toe :: "fit \<Rightarrow> profile \<Rightarrow> real \<Rightarrow> real \<Rightarrow> error + real option" where
  "identify_toe polyfit profile_xy shore_x crest_x =
     (let subset = loc_slice shore_x crest_x profile_xy;
          x = map fst subset;
          y = map snd subset
      in if x = [] then Inl TypeError
         else (case polyfit x y of
                 (A, B, C, D) \<Rightarrow>
                   (let differences = map2 (\<lambda>y x. y - ((A * x * x * x) + (B * x * x) + (C * x) + D)) y x
                    in case idxmin x differences of
                         Inl e \<Rightarrow> Inl e
                       | Inr x_coord \<Rightarrow>
                           if x_coord = shore_x \<or> x_coord = crest_x then Inr None
                           else Inr (Some x_coord))))"

definition identify_heel :: "profile \<Rightarrow> real \<Rightarrow> error + real option" where
  "identify_heel profile_df crest_x =
     (let subset = loc_from crest_x profile_df;
          y = column (map snd subset);
          filtered = bnot (band (band (sgt_c (ssub y (shift (- 10) (rolling 10 lowest y))) (6 / 10))
                                      (sgt y (rolling 10 highest y)))
                                (sgt y (shift (- 20) (rolling 20 highest y))))
      in if list_all id filtered then Inr None
         else (case idxmin (select (map fst subset) filtered) (select (map snd subset) filtered) of
                 Inl e \<Rightarrow> Inl e
               | Inr x_coord \<Rightarrow> Inr (Some x_coord)))"

text \<open>
  \<open>identify_features\<close> prints which landmark is missing and returns \<open>None\<close>, or returns
  the eight coordinates. The model returns the messages printed and the result. The body
  is first given for any four detectors, then applied to the detectors above. The message
  reads the first row of the profile, which raises IndexError on an empty profile.
\<close>

datatype message = NoShore | NoCrest | NoToe | NoHeel

type_synonym features = "real \<times> real \<times> real \<times> real \<times> real \<times> real \<times> real \<times> real"

type_synonym detection = "message list \<times> (error + features option)"

definition no_landmark :: "message \<Rightarrow> profile \<Rightarrow> detection" where
  "no_landmark m profile_xy = (if profile_xy = [] then ([], Inl IndexError) else ([m], Inr None))"

definition y_at :: "profile \<Rightarrow> real \<Rightarrow> real option" where
  "y_at profile_xy l = map_of profile_xy l"

definition identify_features_with ::
  "(profile \<Rightarrow> error + real option) \<Rightarrow> (profile \<Rightarrow> real \<Rightarrow> error + real option) \<Rightarrow>
   (profile \<Rightarrow> real \<Rightarrow> real \<Rightarrow> error + real option) \<Rightarrow> (profile \<Rightarrow> real \<Rightarrow> error + real option) \<Rightarrow>
   profile \<Rightarrow> detection" where
  "identify_features_with shore crest toe heel profile_xy =
     (case shore profile_xy of
        Inl e \<Rightarrow> ([], Inl e)
      | Inr None \<Rightarrow> no_landmark NoShore profile_xy
      | Inr (Some shore_x) \<Rightarrow>
     (case crest profile_xy shore_x of
        Inl e \<Rightarrow> ([], Inl e)
      | Inr None \<Rightarrow> no_landmark NoCrest profile_xy
      | Inr (Some crest_x) \<Rightarrow>
     (case toe profile_xy shore_x crest_x of
        Inl e \<Rightarrow> ([], Inl e)
      | Inr None \<Rightarrow> no_landmark NoToe profile_xy
      | Inr (Some toe_x) \<Rightarrow>
     (case heel profile_xy crest_x of
        Inl e \<Rightarrow> ([], Inl e)
      | Inr None \<Rightarrow> no_landmark NoHeel profile_xy
      | Inr (Some heel_x) \<Rightarrow>
     (case (y_at profile_xy shore_x, y_at profile_xy toe_x, y_at profile_xy crest_x, y_at profile_xy heel_x) of
        (Some shore_y, Some toe_y, Some crest_y, Some heel_y) \<Rightarrow>
          ([], Inr (Some (shore_x, shore_y, toe_x, toe_y, crest_x, crest_y, heel_x, heel_y)))
      | _ \<Rightarrow> ([], Inl KeyError))))))"

definition identify_features :: "fit \<Rightarrow> profile \<Rightarrow> detection" where
  "identify_features polyfit profile_xy =
     identify_features_with identify_shore identify_crest (identify_toe polyfit) identify_heel profile_xy"

subsection \<open>The conditions as the specification words them\<close>

text \<open>The sub-sequence from a onward, and the closed sub-range [a, b].\<close>

abbreviation onward :: "real \<Rightarrow> profile \<Rightarrow> profile" where
  "onward a p \<equiv> filter (\<lambda>s. a \<le> fst s) p"

abbreviation between :: "real \<Rightarrow> real \<Rightarrow> profile \<Rightarrow> profile" where
  "between a b p \<equiv> filter (\<lambda>s. a \<le> fst s \<and> fst s \<le> b) p"

text \<open>The shore as the specification words it: the slope to the previous sample, the
  three conditions at position i, and the first position that satisfies them.\<close>

definition slope_at :: "profile \<Rightarrow> nat \<Rightarrow> real" where
  "slope_at p k = (snd (p ! k) - snd (p ! (k - 1))) / (fst (p ! k) - fst (p ! (k - 1)))"

definition shore_at :: "profile \<Rightarrow> nat \<Rightarrow> bool" where
  "shore_at p i \<longleftrightarrow>
     0 < snd (p ! i)
     \<and> (0 < i \<and> snd (p ! i) > highest (take i (map snd p)))
     \<and> (0 < i \<and> i + 4 < length p \<and> 0 \<le> lowest (map (slope_at p) [i..<i + 5]))"

definition spec_shore :: "profile \<Rightarrow> real option" where
  "spec_shore p = map_option (\<lambda>i. fst (p ! i)) (find (shore_at p) [0..<length p])"

text \<open>
  The conditions of the crest at position i of the elevations \<open>ys\<close> of the sub-sequence:
  a new running maximum (strictly above the highest earlier elevation of the sub-sequence,
  so there is an earlier one), more than 0.6 above the lowest of the following 20
  positions, and above the highest of the following 10 positions. A window that reaches
  past the end of the sub-sequence makes the position fail.
\<close>

definition crest_at :: "real list \<Rightarrow> nat \<Rightarrow> bool" where
  "crest_at ys i \<longleftrightarrow>
     (0 < i \<and> ys ! i > highest (take i ys))
     \<and> (i + 20 < length ys \<and> ys ! i - lowest (take 20 (drop (Suc i) ys)) > 6 / 10)
     \<and> (i + 10 < length ys \<and> ys ! i > highest (take 10 (drop (Suc i) ys)))"

text \<open>The residual of a sample against a cubic: the elevation minus the value of the cubic
  at x.\<close>

definition residual :: "cubic \<Rightarrow> sample \<Rightarrow> real" where
  "residual c s =
     (case c of (A, B, C, D) \<Rightarrow> snd s - ((A * fst s * fst s * fst s) + (B * fst s * fst s) + (C * fst s) + D))"

text \<open>The heel as the specification words it: a position is excluded when it is more than
  0.6 above the lowest of the next 10 positions, above the highest of the previous 10 and
  above the highest of the next 20; the heel is the first of the lowest positions that are
  not excluded.\<close>

definition heel_excluded :: "real list \<Rightarrow> nat \<Rightarrow> bool" where
  "heel_excluded ys i \<longleftrightarrow>
     (i + 10 < length ys \<and> ys ! i - lowest (take 10 (drop (Suc i) ys)) > 6 / 10)
     \<and> (10 \<le> i \<and> ys ! i > highest (take 10 (drop (i - 10) ys)))
     \<and> (i + 20 < length ys \<and> ys ! i > highest (take 20 (drop (Suc i) ys)))"

definition spec_heel :: "profile \<Rightarrow> real \<Rightarrow> real option" where
  "spec_heel p cx =
     (let sub = filter (\<lambda>s. cx \<le> fst s) p;
          ys = map snd sub;
          kept = filter (\<lambda>i. \<not> heel_excluded ys i) [0..<length sub]
      in map_option (\<lambda>i. fst (sub ! i)) (find (\<lambda>i. ys ! i = lowest (map (\<lambda>j. ys ! j) kept)) kept))"

subsection \<open>Example profiles\<close>

text \<open>The profile of the end-to-end scenario of the specification, continued by one more
  sample (6, 3.5), and the profile as far as the specification lists it, where no position
  has five slopes ahead.\<close>

definition scenario :: profile where
  "scenario = [(0, - 1), (1, - 1 / 2), (2, 2 / 10), (3, 1), (4, 11 / 10), (5, 3), (6, 7 / 2)]"

definition scenario_short :: profile where
  "scenario_short = [(0, - 1), (1, - 1 / 2), (2, 2 / 10), (3, 1), (4, 11 / 10), (5, 3)]"

text \<open>A flat profile with one peak at x = 1.\<close>

definition bump :: profile where
  "bump = [(0, 0), (1, 2), (2, 1), (3, 1), (4, 1), (5, 1), (6, 1), (7, 1), (8, 1), (9, 1), (10, 1),
           (11, 1), (12, 1), (13, 1), (14, 1), (15, 1), (16, 1), (17, 1), (18, 1), (19, 1), (20, 1),
           (21, 1)]"

text \<open>A profile with a dip at x = 1 before a peak at x = 2, flat behind it.\<close>

definition dune :: profile where
  "dune = [(0, 1), (1, 0), (2, 3), (3, 1), (4, 1), (5, 1), (6, 1), (7, 1), (8, 1), (9, 1), (10, 1),
           (11, 1), (12, 1), (13, 1), (14, 1), (15, 1), (16, 1), (17, 1), (18, 1), (19, 1), (20, 1),
           (21, 1), (22, 1)]"

text \<open>Five equally spaced samples whose least-squares cubic is the constant 4: the
  residuals 1, -4, 6, -4, 1 are orthogonal to every cubic on five equally spaced points.\<close>

definition notch :: profile where
  "notch = [(0, 5), (1, 0), (2, 10), (3, 0), (4, 5)]"

definition notch_fit :: fit where
  "notch_fit x y = (0, 0, 0, 4)"

text \<open>A fit that always returns the zero cubic, and a stand-in heel detector that always
  finds x = 3: examples put them in the places of the library fit and of the heel search.\<close>

definition zero_fit :: fit where
  "zero_fit x y = (0, 0, 0, 0)"

definition heel_at_3 :: "profile \<Rightarrow> real \<Rightarrow> error + real option" where
  "heel_at_3 p cx = Inr (Some 3)"

subsection \<open>Cells of the derived series\<close>

lemma length_shift [simp]: "length (shift k s) = length s"
  by (auto simp: shift_def min_def)

lemma length_rolling [simp]: "length (rolling w agg s) = length s"
  by (simp add: rolling_def)

lemma length_expanding_max [simp]: "length (expanding_max s) = length s"
  by (simp add: expanding_max_def)

lemma length_column [simp]: "length (column v) = length v"
  by (simp add: column_def)

lemma shift_forward_nth:
  "i < length s \<Longrightarrow> shift (int k) s ! i = (if i < k then None else s ! (i - k))"
  by (simp add: shift_def nth_append)

lemma shift_back_nth:
  "i < length s \<Longrightarrow> 0 < k \<Longrightarrow> shift (- int k) s ! i = (if i + k < length s then s ! (i + k) else None)"
proof -
  assume i: "i < length s" and k: "0 < k"
  have neg: "\<not> 0 \<le> - int k" using k by simp
  show ?thesis
  proof (cases "i + k < length s")
    case True
    then have "i < length s - k" by arith
    then show ?thesis using True neg by (simp add: shift_def nth_append add.commute)
  next
    case False
    then have "i - (length s - k) < min k (length s)" using i k by (auto simp: min_def)
    moreover have "\<not> i < length s - k" using False by arith
    ultimately show ?thesis using False neg i by (simp add: shift_def nth_append)
  qed
qed

lemma rolling_nth:
  "i < length s \<Longrightarrow>
   rolling w agg s ! i = (if Suc i < w then None else map_option agg (those (take w (drop (Suc i - w) s))))"
  by (simp add: rolling_def)

lemma those_map_Some [simp]: "those (map Some l) = Some l"
  by (induction l) simp_all

lemma rolling_column_nth:
  "i < length v \<Longrightarrow> w \<le> Suc i \<Longrightarrow>
   rolling w agg (column v) ! i = Some (agg (take w (drop (Suc i - w) v)))"
  by (simp add: rolling_nth column_def take_map drop_map)

lemma ahead_nth:
  assumes "i < length v" "0 < w"
  shows "shift (- int w) (rolling w agg (column v)) ! i =
           (if i + w < length v then Some (agg (take w (drop (Suc i) v))) else None)"
  using assms by (simp add: shift_back_nth rolling_column_nth)

lemma map_filter_id_Some [simp]: "List.map_filter id (map Some l) = l"
  by (induction l) (simp_all add: List.map_filter_def)

lemma take_shift_one:
  "i < length v \<Longrightarrow> take (Suc i) (shift 1 (column v)) = None # map Some (take i v)"
  by (simp add: shift_def column_def take_map min_def)

lemma running_max_nth:
  assumes "i < length v"
  shows "expanding_max (shift 1 (column v)) ! i = (if i = 0 then None else Some (highest (take i v)))"
proof -
  have "List.map_filter id (None # map Some (take i v)) = take i v"
    by (simp add: List.map_filter_def comp_def)
  moreover have "take i v = [] \<longleftrightarrow> i = 0" using assms by auto
  ultimately show ?thesis
    using assms by (auto simp: expanding_max_def take_shift_one split: list.splits)
qed

lemma band_nth: "i < length a \<Longrightarrow> i < length b \<Longrightarrow> band a b ! i = (a ! i \<and> b ! i)"
  by (simp add: band_def)

lemma length_band [simp]: "length (band a b) = min (length a) (length b)"
  by (simp add: band_def)

lemma length_sgt [simp]: "length (sgt a b) = min (length a) (length b)"
  by (simp add: sgt_def)

lemma length_sgt_c [simp]: "length (sgt_c a c) = length a"
  by (simp add: sgt_c_def)

lemma length_sge_c [simp]: "length (sge_c a c) = length a"
  by (simp add: sge_c_def)

lemma length_ssub [simp]: "length (ssub a b) = min (length a) (length b)"
  by (simp add: ssub_def)

lemma length_sdiv [simp]: "length (sdiv a b) = min (length a) (length b)"
  by (simp add: sdiv_def)

lemma sgt_nth:
  "i < length a \<Longrightarrow> i < length b \<Longrightarrow> sgt a b ! i = (lift2 (>) (a ! i) (b ! i) = Some True)"
  by (simp add: sgt_def)

lemma sgt_c_nth: "i < length a \<Longrightarrow> sgt_c a c ! i = (lift2 (>) (a ! i) (Some c) = Some True)"
  by (simp add: sgt_c_def)

lemma sge_c_nth: "i < length a \<Longrightarrow> sge_c a c ! i = (lift2 (\<ge>) (a ! i) (Some c) = Some True)"
  by (simp add: sge_c_def)

lemma ssub_nth: "i < length a \<Longrightarrow> i < length b \<Longrightarrow> ssub a b ! i = lift2 (-) (a ! i) (b ! i)"
  by (simp add: ssub_def)

lemma column_nth: "i < length v \<Longrightarrow> column v ! i = Some (v ! i)"
  by (simp add: column_def)

subsection \<open>Locating the first hit\<close>

lemma first_true_None: "first_true b = None \<longleftrightarrow> True \<notin> set b"
  by (induction b) auto

lemma first_true_Some:
  "first_true b = Some i \<longleftrightarrow> i < length b \<and> b ! i \<and> (\<forall>j<i. \<not> b ! j)"
proof (induction b arbitrary: i)
  case Nil
  then show ?case by simp
next
  case (Cons a b)
  show ?case
  proof (cases a)
    case True
    then show ?thesis by (cases i) auto
  next
    case False
    show ?thesis
    proof (cases i)
      case 0
      then show ?thesis using False by auto
    next
      case (Suc k)
      have "(\<forall>j<Suc k. \<not> (a # b) ! j) \<longleftrightarrow> (\<forall>j<k. \<not> b ! j)"
        using False by (auto simp: less_Suc_eq_0_disj)
      then show ?thesis using False Suc Cons.IH [of k] by auto
    qed
  qed
qed

lemma first_true_find: "first_true (map P [0..<n]) = find P [0..<n]"
proof (cases "find P [0..<n]")
  case None
  then have "True \<notin> set (map P [0..<n])" by (auto simp: find_None_iff)
  then show ?thesis using None by (simp add: first_true_None)
next
  case (Some i)
  then have "i < n \<and> P i \<and> (\<forall>j<i. \<not> P j)"
    by (auto simp: find_Some_iff)
  then have "first_true (map P [0..<n]) = Some i"
    by (simp add: first_true_Some)
  then show ?thesis using Some by simp
qed

lemma locate:
  assumes "distinct idx" "length b = length idx" "k < length b"
  shows "getitem idx b (idx ! k) = Inr (b ! k)"
  using assms by (simp add: getitem_def map_of_zip_nth)

lemma increasing_distinct: "increasing p \<Longrightarrow> distinct (map fst p)"
  by (simp add: increasing_def strict_sorted_iff)

lemma increasing_loc_from: "increasing p \<Longrightarrow> increasing (loc_from a p)"
  by (simp add: loc_from_filter increasing_filter)

subsection \<open>Cells of the crest filter\<close>

lemma crest_filter:
  "band (band (sgt (column ys) (expanding_max (shift 1 (column ys))))
              (sgt_c (ssub (column ys) (shift (- 20) (rolling 20 lowest (column ys)))) (6 / 10)))
        (sgt (column ys) (shift (- 10) (rolling 10 highest (column ys))))
   = map (crest_at ys) [0..<length ys]"
proof (rule nth_equalityI)
  show "length (band (band (sgt (column ys) (expanding_max (shift 1 (column ys))))
              (sgt_c (ssub (column ys) (shift (- 20) (rolling 20 lowest (column ys)))) (6 / 10)))
        (sgt (column ys) (shift (- 10) (rolling 10 highest (column ys))))) = length (map (crest_at ys) [0..<length ys])"
    by simp
next
  fix i
  assume "i < length (band (band (sgt (column ys) (expanding_max (shift 1 (column ys))))
              (sgt_c (ssub (column ys) (shift (- 20) (rolling 20 lowest (column ys)))) (6 / 10)))
        (sgt (column ys) (shift (- 10) (rolling 10 highest (column ys)))))"
  then have i: "i < length ys" by simp
  have a: "sgt (column ys) (expanding_max (shift 1 (column ys))) ! i
             = (0 < i \<and> ys ! i > highest (take i ys))"
    using i by (simp add: sgt_nth column_nth running_max_nth)
  have b: "sgt_c (ssub (column ys) (shift (- 20) (rolling 20 lowest (column ys)))) (6 / 10) ! i
             = (i + 20 < length ys \<and> ys ! i - lowest (take 20 (drop (Suc i) ys)) > 6 / 10)"
    using i ahead_nth [of i ys 20 lowest] by (simp add: sgt_c_nth ssub_nth column_nth)
  have c: "sgt (column ys) (shift (- 10) (rolling 10 highest (column ys))) ! i
             = (i + 10 < length ys \<and> ys ! i > highest (take 10 (drop (Suc i) ys)))"
    using i ahead_nth [of i ys 10 highest] by (simp add: sgt_nth column_nth)
  show "band (band (sgt (column ys) (expanding_max (shift 1 (column ys))))
              (sgt_c (ssub (column ys) (shift (- 20) (rolling 20 lowest (column ys)))) (6 / 10)))
        (sgt (column ys) (shift (- 10) (rolling 10 highest (column ys)))) ! i
        = map (crest_at ys) [0..<length ys] ! i"
    using i a b c by (simp add: band_nth crest_at_def)
qed

lemma first_hit:
  assumes d: "distinct idx" and n: "length idx = n" and pos: "0 < n"
  shows "(case idxmax idx (map P [0..<n]) of
            Inl e \<Rightarrow> Inl e
          | Inr x_coord \<Rightarrow>
              (case getitem idx (map P [0..<n]) x_coord of
                 Inl e \<Rightarrow> Inl e
               | Inr hit \<Rightarrow> if hit = False then Inr None else Inr (Some x_coord)))
         = Inr (map_option (\<lambda>i. idx ! i) (find P [0..<n]))"
proof (cases "find P [0..<n]")
  case None
  then have "\<not> P 0" using pos by (auto simp: find_None_iff)
  then show ?thesis
    using None pos locate [OF d, of "map P [0..<n]" 0] n
    by (simp add: idxmax_def first_true_find)
next
  case (Some i)
  then have "i < n \<and> P i" by (auto simp: find_Some_iff)
  then show ?thesis
    using Some pos locate [OF d, of "map P [0..<n]" i] n
    by (simp add: idxmax_def first_true_find)
qed

lemma identify_crest_first:
  assumes inc: "increasing p" and ne: "loc_from sx p \<noteq> []"
  shows "identify_crest p sx =
           Inr (map_option (\<lambda>i. fst (loc_from sx p ! i))
                  (find (crest_at (map snd (loc_from sx p))) [0..<length (loc_from sx p)]))"
proof -
  let ?sub = "loc_from sx p"
  have d: "distinct (map fst ?sub)" using inc by (simp add: increasing_distinct increasing_loc_from)
  have pos: "0 < length ?sub" using ne by simp
  have idx: "map_option (\<lambda>i. map fst ?sub ! i) (find (crest_at (map snd ?sub)) [0..<length ?sub])
             = map_option (\<lambda>i. fst (?sub ! i)) (find (crest_at (map snd ?sub)) [0..<length ?sub])"
  proof (cases "find (crest_at (map snd ?sub)) [0..<length ?sub]")
    case None
    then show ?thesis by simp
  next
    case (Some i)
    then have "i < length ?sub" by (auto simp: find_Some_iff)
    then show ?thesis using Some by simp
  qed
  show ?thesis
    unfolding identify_crest_def Let_def crest_filter length_map
      first_hit [OF d length_map pos, of "crest_at (map snd ?sub)"] idx
    by (rule refl)
qed

subsection \<open>The heel filter\<close>

lemma length_bnot [simp]: "length (bnot a) = length a"
  by (simp add: bnot_def)

lemma highest_ge: "v \<in> set l \<Longrightarrow> v \<le> highest l"
  by (simp add: highest_def)

lemma trailing_window_last:
  assumes "i < length v" "w \<le> Suc i" "0 < w"
  shows "v ! i \<in> set (take w (drop (Suc i - w) v))"
proof -
  have "take w (drop (Suc i - w) v) ! (w - 1) = v ! i"
    using assms by simp
  moreover have "w - 1 < length (take w (drop (Suc i - w) v))"
    using assms by simp
  ultimately show ?thesis by (metis nth_mem)
qed

lemma never_above_trailing_max:
  assumes "i < length ys"
  shows "\<not> sgt (column ys) (rolling 10 highest (column ys)) ! i"
proof (cases "Suc i < 10")
  case True
  then show ?thesis using assms by (simp add: sgt_nth column_nth rolling_nth)
next
  case False
  then have w: "10 \<le> Suc i" by simp
  have "ys ! i \<le> highest (take 10 (drop (Suc i - 10) ys))"
    using trailing_window_last [OF assms w] by (simp add: highest_ge)
  then show ?thesis
    using assms w by (simp add: sgt_nth column_nth rolling_column_nth)
qed

lemma identify_heel_absent: "identify_heel p cx = Inr None"
proof -
  let ?ys = "map snd (loc_from cx p)"
  let ?y = "column ?ys"
  let ?f = "bnot (band (band (sgt_c (ssub ?y (shift (- 10) (rolling 10 lowest ?y))) (6 / 10))
                                      (sgt ?y (rolling 10 highest ?y)))
                                (sgt ?y (shift (- 20) (rolling 20 highest ?y))))"
  have "?f ! i" if "i < length ?f" for i
  proof -
    have i: "i < length ?ys" using that by simp
    show ?thesis
      using i never_above_trailing_max [OF i] by (simp add: bnot_def band_nth)
  qed
  then have "list_all id ?f" by (simp add: list_all_length)
  then show ?thesis by (simp add: identify_heel_def Let_def)
qed

subsection \<open>The first minimum\<close>

lemma lowest_in: "l \<noteq> [] \<Longrightarrow> lowest l \<in> set l"
  by (simp add: lowest_def)

lemma lowest_le: "v \<in> set l \<Longrightarrow> lowest l \<le> v"
  by (simp add: lowest_def)

lemma first_lowest:
  assumes "v \<noteq> []"
  defines "k \<equiv> length (takeWhile (\<lambda>u. u \<noteq> lowest v) v)"
  shows "k < length v" and "v ! k = lowest v" and "\<forall>j<k. lowest v < v ! j"
proof -
  have "takeWhile (\<lambda>u. u \<noteq> lowest v) v \<noteq> v"
    using lowest_in [OF assms(1)] by (auto simp: takeWhile_eq_all_conv)
  then have "k \<noteq> length v"
    unfolding k_def using takeWhile_eq_take [of "\<lambda>u. u \<noteq> lowest v" v] by auto
  then show k: "k < length v"
    unfolding k_def using length_takeWhile_le [of "\<lambda>u. u \<noteq> lowest v" v] by simp
  show "v ! k = lowest v"
    using k nth_length_takeWhile [of "\<lambda>u. u \<noteq> lowest v" v] unfolding k_def by auto
  show "\<forall>j<k. lowest v < v ! j"
  proof (intro allI impI)
    fix j assume j: "j < k"
    then have jt: "j < length (takeWhile (\<lambda>u. u \<noteq> lowest v) v)" by (simp add: k_def)
    then have "takeWhile (\<lambda>u. u \<noteq> lowest v) v ! j \<in> set (takeWhile (\<lambda>u. u \<noteq> lowest v) v)"
      by (rule nth_mem)
    then have "takeWhile (\<lambda>u. u \<noteq> lowest v) v ! j \<noteq> lowest v"
      by (rule set_takeWhileD [THEN conjunct2])
    then have "v ! j \<noteq> lowest v" using takeWhile_nth [OF jt] by simp
    moreover have "lowest v \<le> v ! j" using j k by (simp add: lowest_le)
    ultimately show "lowest v < v ! j" by simp
  qed
qed

lemma identify_toe_position:
  assumes ne: "loc_slice sx cx p \<noteq> []"
  shows "\<exists>k < length (loc_slice sx cx p).
           (\<forall>j < length (loc_slice sx cx p).
               residual (polyfit (map fst (loc_slice sx cx p)) (map snd (loc_slice sx cx p))) (loc_slice sx cx p ! k)
             \<le> residual (polyfit (map fst (loc_slice sx cx p)) (map snd (loc_slice sx cx p))) (loc_slice sx cx p ! j))
           \<and> (\<forall>j < k.
               residual (polyfit (map fst (loc_slice sx cx p)) (map snd (loc_slice sx cx p))) (loc_slice sx cx p ! k)
             < residual (polyfit (map fst (loc_slice sx cx p)) (map snd (loc_slice sx cx p))) (loc_slice sx cx p ! j))
           \<and> identify_toe polyfit p sx cx =
                Inr (if fst (loc_slice sx cx p ! k) = sx \<or> fst (loc_slice sx cx p ! k) = cx then None
                     else Some (fst (loc_slice sx cx p ! k)))"
proof -
  let ?sub = "loc_slice sx cx p"
  let ?c = "polyfit (map fst ?sub) (map snd ?sub)"
  obtain A B C D where c: "?c = (A, B, C, D)" by (cases ?c) auto
  let ?d = "map2 (\<lambda>y x. y - ((A * x * x * x) + (B * x * x) + (C * x) + D)) (map snd ?sub) (map fst ?sub)"
  have d: "?d = map (residual ?c) ?sub"
    by (rule nth_equalityI) (simp_all add: residual_def c)
  have dne: "?d \<noteq> []" using ne by simp
  let ?k = "length (takeWhile (\<lambda>u. u \<noteq> lowest ?d) ?d)"
  have k: "?k < length ?sub" using first_lowest(1) [OF dne] by simp
  have low: "?d ! ?k = lowest ?d" using first_lowest(2) [OF dne] .
  have le: "\<forall>j < length ?sub. residual ?c (?sub ! ?k) \<le> residual ?c (?sub ! j)"
  proof (intro allI impI)
    fix j assume j: "j < length ?sub"
    have "lowest ?d \<le> ?d ! j" using j by (intro lowest_le nth_mem) simp
    then have "?d ! ?k \<le> ?d ! j" using low by simp
    then show "residual ?c (?sub ! ?k) \<le> residual ?c (?sub ! j)"
      using j k unfolding d by simp
  qed
  have lt: "\<forall>j < ?k. residual ?c (?sub ! ?k) < residual ?c (?sub ! j)"
  proof (intro allI impI)
    fix j assume j: "j < ?k"
    have "lowest ?d < ?d ! j" using first_lowest(3) [OF dne] j by blast
    then have "?d ! ?k < ?d ! j" using low by simp
    then show "residual ?c (?sub ! ?k) < residual ?c (?sub ! j)"
      using j k unfolding d by simp
  qed
  have eq: "identify_toe polyfit p sx cx =
          Inr (if fst (?sub ! ?k) = sx \<or> fst (?sub ! ?k) = cx then None else Some (fst (?sub ! ?k)))"
    using ne k by (simp add: identify_toe_def Let_def c idxmin_def)
  show ?thesis
    by (rule exI [of _ ?k]) (intro conjI k le lt eq)
qed

lemma bump_after_crest:
  "filter (\<lambda>s. 1 \<le> fst s) bump = tl bump"
  by (simp add: bump_def)

lemma bump_tl_length: "length (tl bump) = 21"
  by (simp add: bump_def)

lemma bump_none_excluded: "\<not> heel_excluded (map snd (tl bump)) i"
proof
  assume "heel_excluded (map snd (tl bump)) i"
  then have "10 \<le> i" and "i + 20 < length (map snd (tl bump))"
    by (simp_all add: heel_excluded_def)
  then show False using bump_tl_length by simp
qed

lemma bump_kept:
  "filter (\<lambda>i. \<not> heel_excluded (map snd (tl bump)) i) [0..<length (tl bump)] = [0..<21]"
  using bump_none_excluded bump_tl_length by simp

lemma bump_tl_elevations: "map (\<lambda>j. map snd (tl bump) ! j) [0..<21] = map snd (tl bump)"
  using map_nth [of "map snd (tl bump)"] bump_tl_length by simp

lemma bump_lowest: "lowest (map snd (tl bump)) = 1"
  by (simp add: bump_def lowest_def)

lemma bump_first_lowest: "find (\<lambda>i. map snd (tl bump) ! i = 1) [0..<21] = Some 1"
  by (simp add: bump_def upt_conv_Cons)

lemma spec_heel_bump: "spec_heel bump 1 = Some 2"
  unfolding spec_heel_def Let_def bump_after_crest bump_kept bump_tl_elevations bump_lowest
    bump_first_lowest
  by (simp add: bump_def)

subsection \<open>The chain of searches\<close>

lemma chain_no_shore:
  "p \<noteq> [] \<Longrightarrow> shore p = Inr None \<Longrightarrow> identify_features_with shore crest toe heel p = ([NoShore], Inr None)"
  by (simp add: identify_features_with_def no_landmark_def)

lemma chain_no_crest:
  "p \<noteq> [] \<Longrightarrow> shore p = Inr (Some sx) \<Longrightarrow> crest p sx = Inr None \<Longrightarrow>
   identify_features_with shore crest toe heel p = ([NoCrest], Inr None)"
  by (simp add: identify_features_with_def no_landmark_def)

lemma chain_no_toe:
  "p \<noteq> [] \<Longrightarrow> shore p = Inr (Some sx) \<Longrightarrow> crest p sx = Inr (Some cx) \<Longrightarrow> toe p sx cx = Inr None \<Longrightarrow>
   identify_features_with shore crest toe heel p = ([NoToe], Inr None)"
  by (simp add: identify_features_with_def no_landmark_def)

lemma chain_no_heel:
  "p \<noteq> [] \<Longrightarrow> shore p = Inr (Some sx) \<Longrightarrow> crest p sx = Inr (Some cx) \<Longrightarrow> toe p sx cx = Inr (Some tx) \<Longrightarrow>
   heel p cx = Inr None \<Longrightarrow>
   identify_features_with shore crest toe heel p = ([NoHeel], Inr None)"
  by (simp add: identify_features_with_def no_landmark_def)

lemma chain_complete:
  assumes "identify_features_with shore crest toe heel p = (out, Inr (Some f))"
  shows "out = [] \<and> (\<exists>sx sy tx ty cx cy hx hy.
            f = (sx, sy, tx, ty, cx, cy, hx, hy)
            \<and> shore p = Inr (Some sx) \<and> crest p sx = Inr (Some cx)
            \<and> toe p sx cx = Inr (Some tx) \<and> heel p cx = Inr (Some hx)
            \<and> y_at p sx = Some sy \<and> y_at p tx = Some ty \<and> y_at p cx = Some cy \<and> y_at p hx = Some hy)"
  using assms
  by (auto simp: identify_features_with_def no_landmark_def
      split: sum.splits option.splits if_splits)

lemma identify_features_never_complete:
  "identify_features polyfit p \<noteq> (out, Inr (Some f))"
proof
  assume "identify_features polyfit p = (out, Inr (Some f))"
  then obtain cx hx where "identify_heel p cx = Inr (Some hx)"
    unfolding identify_features_def using chain_complete by blast
  then show False by (simp add: identify_heel_absent)
qed

subsection \<open>The first crest, and the heel that is never found\<close>

lemma increasing_bump: "increasing bump"
  by (simp add: bump_def increasing_def)

lemma bump_onward: "onward 0 bump = bump"
  by (simp add: bump_def)

lemma bump_length: "length bump = 22"
  by (simp add: bump_def)

lemma bump_crest_at: "crest_at (map snd bump) 1"
  by (simp add: bump_def crest_at_def highest_def lowest_def)

lemma bump_not_crest_at: "\<not> crest_at (map snd bump) 0"
  by (simp add: crest_at_def)

text \<open>
  Claim C6. On a profile with increasing x and a shore_x that is one of its x, the crest
  detector returns the x of the first position of the sub-sequence from shore_x onward
  (inclusive) that satisfies the three crest conditions, returns None exactly when no
  position satisfies them, and never raises: a window that reaches past the end of the
  sub-sequence only makes the position fail.
\<close>

theorem identify_crest_first_qualifying:
  assumes "increasing p" and "sx \<in> fst ` set p"
  shows "(\<forall>i < length (onward sx p).
            crest_at (map snd (onward sx p)) i \<and> (\<forall>j < i. \<not> crest_at (map snd (onward sx p)) j)
            \<longrightarrow> identify_crest p sx = Inr (Some (fst (onward sx p ! i))))
         \<and> (identify_crest p sx = Inr None \<longleftrightarrow> (\<forall>i < length (onward sx p). \<not> crest_at (map snd (onward sx p)) i))
         \<and> (\<forall>e. identify_crest p sx \<noteq> Inl e)"
proof -
  let ?sub = "onward sx p"
  let ?P = "crest_at (map snd ?sub)"
  have sub: "loc_from sx p = ?sub" using assms(1) by (rule loc_from_filter)
  have ne: "loc_from sx p \<noteq> []" using assms(2) by (auto simp: sub filter_empty_conv)
  have eq: "identify_crest p sx = Inr (map_option (\<lambda>i. fst (?sub ! i)) (find ?P [0..<length ?sub]))"
    using identify_crest_first [OF assms(1) ne] by (simp only: sub)
  have first: "identify_crest p sx = Inr (Some (fst (?sub ! i)))"
    if "i < length ?sub" "?P i" "\<forall>j < i. \<not> ?P j" for i
  proof -
    have "find ?P [0..<length ?sub] = Some i"
      using that by (auto simp: find_Some_iff intro!: exI [of _ i])
    then show ?thesis by (simp add: eq)
  qed
  have none: "identify_crest p sx = Inr None \<longleftrightarrow> (\<forall>i < length ?sub. \<not> ?P i)"
    by (auto simp: eq find_None_iff)
  show ?thesis using first none eq by simp
qed

theorem identify_crest_first_qualifying_witness:
  "increasing bump \<and> 0 \<in> fst ` set bump \<and> identify_crest bump 0 = Inr (Some 1)"
proof -
  have m: "(0::real) \<in> fst ` set bump" by (simp add: bump_def)
  have "identify_crest bump 0 = Inr (Some (fst (bump ! 1)))"
    using identify_crest_first_qualifying [OF increasing_bump m] bump_crest_at bump_not_crest_at
    by (simp add: bump_onward bump_length)
  then show ?thesis using increasing_bump m by (simp add: bump_def)
qed

text \<open>
  Claim C2 (the code departs from it). Behind the crest of \<open>bump\<close> at x = 1 the claim
  puts the heel at x = 2: no position is excluded, and x = 2 is the first of the lowest
  positions. The code returns None, as it does for every profile and every crest_x.
\<close>

theorem identify_heel_bump: "identify_heel bump 1 = Inr None \<and> spec_heel bump 1 = Some 2"
  using identify_heel_absent spec_heel_bump by simp

subsection \<open>The shore\<close>

lemma identify_shore_scenario: "identify_shore scenario = Inr None"
  by (simp add: identify_shore_def scenario_def column_def shift_def rolling_def expanding_max_def
      ssub_def sdiv_def sgt_def sgt_c_def sge_c_def band_def idxmax_def getitem_def lowest_def highest_def
      List.map_filter_def)

lemma identify_shore_scenario_short: "identify_shore scenario_short = Inr (Some 0)"
  by (simp add: identify_shore_def scenario_short_def column_def shift_def rolling_def expanding_max_def
      ssub_def sdiv_def sgt_def sgt_c_def sge_c_def band_def idxmax_def getitem_def lowest_def highest_def
      List.map_filter_def)

lemma spec_shore_scenario: "spec_shore scenario = Some 2"
  by (simp add: spec_shore_def scenario_def shore_at_def slope_at_def lowest_def highest_def upt_conv_Cons)

lemma spec_shore_scenario_short: "spec_shore scenario_short = None"
  by (simp add: spec_shore_def scenario_short_def shore_at_def slope_at_def lowest_def highest_def upt_conv_Cons)

text \<open>
  Claim C1 (the code departs from it). On the scenario profile the first position that
  satisfies the three shore conditions is x = 2, and the code returns None; on the
  shorter profile no position satisfies them, and the code returns the first x, 0, where
  the elevation is negative.
\<close>

theorem identify_shore_inverted:
  "identify_shore scenario = Inr None \<and> spec_shore scenario = Some 2
   \<and> identify_shore scenario_short = Inr (Some 0) \<and> spec_shore scenario_short = None"
  using identify_shore_scenario identify_shore_scenario_short spec_shore_scenario
    spec_shore_scenario_short by simp

lemma sdiv_nth:
  "i < length a \<Longrightarrow> i < length b \<Longrightarrow>
   sdiv a b ! i = (if b ! i = Some 0 then None else lift2 (/) (a ! i) (b ! i))"
  by (simp add: sdiv_def)

lemma shift_one_nth:
  "i < length v \<Longrightarrow> shift 1 (column v) ! i = (if i = 0 then None else Some (v ! (i - 1)))"
  using shift_forward_nth [of i "column v" 1] by (simp add: column_nth)

lemma increasing_step:
  assumes "increasing p" "0 < k" "k < length p"
  shows "fst (p ! (k - 1)) < fst (p ! k)"
proof -
  have "map fst p ! (k - 1) < map fst p ! k"
    using assms by (intro sorted_wrt_nth_less) (simp_all add: increasing_def)
  then show ?thesis using assms by simp
qed

lemma slope_series:
  assumes inc: "increasing p"
  shows "sdiv (ssub (column (map snd p)) (shift 1 (column (map snd p))))
              (ssub (column (map fst p)) (shift 1 (column (map fst p))))
         = map (\<lambda>k. if k = 0 then None else Some (slope_at p k)) [0..<length p]"
proof (rule nth_equalityI)
  show "length (sdiv (ssub (column (map snd p)) (shift 1 (column (map snd p))))
              (ssub (column (map fst p)) (shift 1 (column (map fst p)))))
        = length (map (\<lambda>k. if k = 0 then None else Some (slope_at p k)) [0..<length p])"
    by simp
next
  fix k
  assume "k < length (sdiv (ssub (column (map snd p)) (shift 1 (column (map snd p))))
              (ssub (column (map fst p)) (shift 1 (column (map fst p)))))"
  then have k: "k < length p" by simp
  show "sdiv (ssub (column (map snd p)) (shift 1 (column (map snd p))))
              (ssub (column (map fst p)) (shift 1 (column (map fst p)))) ! k
        = map (\<lambda>k. if k = 0 then None else Some (slope_at p k)) [0..<length p] ! k"
  proof (cases "k = 0")
    case True
    then show ?thesis using k by (simp add: sdiv_nth ssub_nth shift_one_nth column_nth)
  next
    case False
    then have "fst (p ! (k - 1)) < fst (p ! k)" using increasing_step [OF inc _ k] by simp
    then show ?thesis
      using k False by (simp add: sdiv_nth ssub_nth shift_one_nth column_nth slope_at_def)
  qed
qed

lemma window_of_map:
  "d + w \<le> n \<Longrightarrow> take w (drop d (map f [0..<n])) = map f [d..<d + w]"
  by (simp add: take_map drop_map take_upt add.commute)

lemma slopes_ahead:
  assumes i: "i < n"
  shows "shift (- 4) (rolling 5 lowest (map (\<lambda>k. if k = 0 then None else Some (slope_at p k)) [0..<n])) ! i
         = (if 0 < i \<and> i + 4 < n then Some (lowest (map (slope_at p) [i..<i + 5])) else None)"
proof -
  let ?f = "\<lambda>k. if k = 0 then None else Some (slope_at p k)"
  let ?s = "map ?f [0..<n]"
  have ahead: "shift (- 4) (rolling 5 lowest ?s) ! i
                = (if i + 4 < n then rolling 5 lowest ?s ! (i + 4) else None)"
    using i shift_back_nth [of i "rolling 5 lowest ?s" 4] by simp
  show ?thesis
  proof (cases "i + 4 < n")
    case False
    then show ?thesis using ahead by simp
  next
    case True
    have w: "take 5 (drop i ?s) = map ?f [i..<i + 5]"
      using True window_of_map [of i 5 n ?f] by simp
    have r: "rolling 5 lowest ?s ! (i + 4) = map_option lowest (those (map ?f [i..<i + 5]))"
      using True w by (simp add: rolling_nth)
    show ?thesis
    proof (cases "i = 0")
      case True
      have "those (map ?f [0..<5]) = None" by (simp add: upt_conv_Cons)
      then show ?thesis using ahead r True \<open>i + 4 < n\<close> by simp
    next
      case False
      have "map ?f [i..<i + 5] = map Some (map (slope_at p) [i..<i + 5])"
        using False by simp
      then have "those (map ?f [i..<i + 5]) = Some (map (slope_at p) [i..<i + 5])"
        by (simp only: those_map_Some)
      then show ?thesis using ahead r False True by simp
    qed
  qed
qed

lemma shore_filter:
  assumes inc: "increasing p"
  shows "band (band (sgt_c (column (map snd p)) 0)
                    (sgt (column (map snd p)) (expanding_max (shift 1 (column (map snd p))))))
              (sge_c (shift (- 4) (rolling 5 lowest
                 (sdiv (ssub (column (map snd p)) (shift 1 (column (map snd p))))
                       (ssub (column (map fst p)) (shift 1 (column (map fst p))))))) 0)
         = map (shore_at p) [0..<length p]"
  unfolding slope_series [OF inc]
proof (rule nth_equalityI)
  show "length (band (band (sgt_c (column (map snd p)) 0)
                    (sgt (column (map snd p)) (expanding_max (shift 1 (column (map snd p))))))
              (sge_c (shift (- 4) (rolling 5 lowest
                 (map (\<lambda>k. if k = 0 then None else Some (slope_at p k)) [0..<length p]))) 0))
        = length (map (shore_at p) [0..<length p])"
    by simp
next
  fix i
  assume "i < length (band (band (sgt_c (column (map snd p)) 0)
                    (sgt (column (map snd p)) (expanding_max (shift 1 (column (map snd p))))))
              (sge_c (shift (- 4) (rolling 5 lowest
                 (map (\<lambda>k. if k = 0 then None else Some (slope_at p k)) [0..<length p]))) 0))"
  then have i: "i < length p" by simp
  have a: "sgt_c (column (map snd p)) 0 ! i = (0 < snd (p ! i))"
    using i by (simp add: sgt_c_nth column_nth)
  have b: "sgt (column (map snd p)) (expanding_max (shift 1 (column (map snd p)))) ! i
             = (0 < i \<and> snd (p ! i) > highest (take i (map snd p)))"
    using i by (simp add: sgt_nth column_nth running_max_nth)
  have c: "sge_c (shift (- 4) (rolling 5 lowest
                 (map (\<lambda>k. if k = 0 then None else Some (slope_at p k)) [0..<length p]))) 0 ! i
             = (0 < i \<and> i + 4 < length p \<and> 0 \<le> lowest (map (slope_at p) [i..<i + 5]))"
    using i slopes_ahead [OF i, of p] by (simp add: sge_c_nth)
  show "band (band (sgt_c (column (map snd p)) 0)
                    (sgt (column (map snd p)) (expanding_max (shift 1 (column (map snd p))))))
              (sge_c (shift (- 4) (rolling 5 lowest
                 (map (\<lambda>k. if k = 0 then None else Some (slope_at p k)) [0..<length p]))) 0) ! i
        = map (shore_at p) [0..<length p] ! i"
    using i a b c by (simp add: band_nth shore_at_def)
qed

lemma first_label:
  assumes d: "distinct idx" and n: "length idx = n" and pos: "0 < n"
  shows "\<exists>k < n. idxmax idx (map P [0..<n]) = Inr (idx ! k)
           \<and> getitem idx (map P [0..<n]) (idx ! k) = Inr (P k)
           \<and> (P k \<longleftrightarrow> (\<exists>i < n. P i)) \<and> (\<not> P k \<longrightarrow> k = 0)"
proof (cases "find P [0..<n]")
  case None
  then have no: "\<forall>i < n. \<not> P i" by (auto simp: find_None_iff)
  have "idxmax idx (map P [0..<n]) = Inr (idx ! 0)"
    using None pos by (simp add: idxmax_def first_true_find)
  moreover have "getitem idx (map P [0..<n]) (idx ! 0) = Inr (P 0)"
    using locate [OF d, of "map P [0..<n]" 0] n pos by simp
  ultimately show ?thesis using no pos by (intro exI [of _ 0]) simp
next
  case (Some i)
  then have i: "i < n \<and> P i" by (auto simp: find_Some_iff)
  have "idxmax idx (map P [0..<n]) = Inr (idx ! i)"
    using Some pos by (simp add: idxmax_def first_true_find)
  moreover have "getitem idx (map P [0..<n]) (idx ! i) = Inr (P i)"
    using locate [OF d, of "map P [0..<n]" i] n i by simp
  ultimately show ?thesis using i by (intro exI [of _ i]) auto
qed

lemma identify_shore_general:
  assumes inc: "increasing p" and ne: "p \<noteq> []"
  shows "identify_shore p = Inr (if \<exists>i < length p. shore_at p i then None else Some (fst (p ! 0)))"
proof -
  have d: "distinct (map fst p)" using inc by (rule increasing_distinct)
  have pos: "0 < length p" using ne by simp
  obtain k where k: "k < length p"
    "idxmax (map fst p) (map (shore_at p) [0..<length p]) = Inr (map fst p ! k)"
    "getitem (map fst p) (map (shore_at p) [0..<length p]) (map fst p ! k) = Inr (shore_at p k)"
    "shore_at p k \<longleftrightarrow> (\<exists>i < length p. shore_at p i)" "\<not> shore_at p k \<longrightarrow> k = 0"
    using first_label [OF d length_map pos, of "shore_at p"] by blast
  show ?thesis
    unfolding identify_shore_def Let_def shore_filter [OF inc]
    using k by auto
qed

lemma identify_shore_empty: "identify_shore [] = Inl ValueError"
  by (simp add: identify_shore_def column_def shift_def rolling_def expanding_max_def
      ssub_def sdiv_def sgt_def sgt_c_def sge_c_def band_def idxmax_def)

subsection \<open>The toe of a fitted cubic\<close>

lemma increasing_notch: "increasing notch"
  by (simp add: notch_def increasing_def)

lemma identify_toe_notch: "identify_toe notch_fit notch 0 4 = Inr (Some 1)"
  by (simp add: identify_toe_def notch_def notch_fit_def loc_slice_def loc_from_def idxmin_def lowest_def)

lemma identify_toe_between:
  assumes "identify_toe polyfit p sx cx = Inr (Some tx)"
  shows "tx \<in> fst ` set (loc_slice sx cx p) \<and> tx \<noteq> sx \<and> tx \<noteq> cx"
proof -
  have ne: "loc_slice sx cx p \<noteq> []"
    using assms by (auto simp: identify_toe_def Let_def)
  obtain k where k: "k < length (loc_slice sx cx p)"
    "identify_toe polyfit p sx cx =
       Inr (if fst (loc_slice sx cx p ! k) = sx \<or> fst (loc_slice sx cx p ! k) = cx then None
            else Some (fst (loc_slice sx cx p ! k)))"
    using identify_toe_position [OF ne, of polyfit] by blast
  have "tx = fst (loc_slice sx cx p ! k) \<and> tx \<noteq> sx \<and> tx \<noteq> cx"
    using assms k(2) by (auto split: if_splits)
  then show ?thesis using k(1) by (auto intro!: image_eqI [of _ _ "loc_slice sx cx p ! k"])
qed

text \<open>
  Claim C4. On a profile with increasing x and a non-empty closed sub-range
  [shore_x, crest_x], the toe detector fits the cubic to the x and y of exactly the
  samples of that sub-range, and there is a first position of minimum residual (elevation
  minus the value of the cubic) such that the detector returns None when the x of that
  position is shore_x or crest_x and returns that x otherwise. A resolved toe_x is
  therefore never shore_x or crest_x, and lies strictly between them.
\<close>

theorem identify_toe_minimum_residual:
  assumes "increasing p" and "between sx cx p \<noteq> []"
  shows "(\<exists>k < length (between sx cx p).
            (\<forall>j < length (between sx cx p).
                residual (polyfit (map fst (between sx cx p)) (map snd (between sx cx p))) (between sx cx p ! k)
              \<le> residual (polyfit (map fst (between sx cx p)) (map snd (between sx cx p))) (between sx cx p ! j))
            \<and> (\<forall>j < k.
                residual (polyfit (map fst (between sx cx p)) (map snd (between sx cx p))) (between sx cx p ! k)
              < residual (polyfit (map fst (between sx cx p)) (map snd (between sx cx p))) (between sx cx p ! j))
            \<and> identify_toe polyfit p sx cx =
                 Inr (if fst (between sx cx p ! k) = sx \<or> fst (between sx cx p ! k) = cx then None
                      else Some (fst (between sx cx p ! k))))
         \<and> (\<forall>tx. identify_toe polyfit p sx cx = Inr (Some tx) \<longrightarrow>
                tx \<noteq> sx \<and> tx \<noteq> cx \<and> sx < tx \<and> tx < cx)"
proof -
  have sub: "loc_slice sx cx p = between sx cx p" using assms(1) by (rule loc_slice_filter)
  have ne: "loc_slice sx cx p \<noteq> []" unfolding sub by (rule assms(2))
  have first: "\<exists>k < length (between sx cx p).
            (\<forall>j < length (between sx cx p).
                residual (polyfit (map fst (between sx cx p)) (map snd (between sx cx p))) (between sx cx p ! k)
              \<le> residual (polyfit (map fst (between sx cx p)) (map snd (between sx cx p))) (between sx cx p ! j))
            \<and> (\<forall>j < k.
                residual (polyfit (map fst (between sx cx p)) (map snd (between sx cx p))) (between sx cx p ! k)
              < residual (polyfit (map fst (between sx cx p)) (map snd (between sx cx p))) (between sx cx p ! j))
            \<and> identify_toe polyfit p sx cx =
                 Inr (if fst (between sx cx p ! k) = sx \<or> fst (between sx cx p ! k) = cx then None
                      else Some (fst (between sx cx p ! k)))"
    using identify_toe_position [OF ne, of polyfit] unfolding sub .
  have inside: "tx \<noteq> sx \<and> tx \<noteq> cx \<and> sx < tx \<and> tx < cx"
    if "identify_toe polyfit p sx cx = Inr (Some tx)" for tx
  proof -
    have "tx \<in> fst ` set (between sx cx p) \<and> tx \<noteq> sx \<and> tx \<noteq> cx"
      using identify_toe_between [OF that] unfolding sub .
    then show ?thesis by auto
  qed
  show ?thesis using first inside by blast
qed

theorem identify_toe_minimum_residual_witness:
  "increasing notch \<and> between 0 4 notch \<noteq> []
   \<and> identify_toe notch_fit notch 0 4 = Inr (Some 1) \<and> (0::real) < 1 \<and> (1::real) < 4"
proof -
  have ne: "between 0 4 notch \<noteq> []" by (simp add: notch_def)
  show ?thesis
    using identify_toe_minimum_residual [OF increasing_notch ne, of notch_fit]
      identify_toe_notch increasing_notch ne by simp
qed

subsection \<open>The chain on the example profiles\<close>

lemma find_first:
  "i < n \<Longrightarrow> P i \<Longrightarrow> \<forall>j < i. \<not> P j \<Longrightarrow> find P [0..<n] = Some i"
  by (auto simp: find_Some_iff intro!: exI [of _ i])

lemma find_none: "\<forall>j < n. \<not> P j \<Longrightarrow> find P [0..<n] = None"
  by (simp add: find_None_iff)

lemma identify_crest_bump: "identify_crest bump 0 = Inr (Some 1)"
proof -
  have sub: "loc_from 0 bump = bump" by (simp add: loc_from_def bump_def)
  have ne: "loc_from 0 bump \<noteq> []" by (simp add: loc_from_def bump_def)
  have f: "find (crest_at (map snd bump)) [0..<length bump] = Some 1"
    using find_first [of 1 "length bump" "crest_at (map snd bump)"] bump_crest_at bump_not_crest_at
    by (simp add: bump_length)
  have "identify_crest bump 0 =
          Inr (map_option (\<lambda>i. fst (bump ! i)) (find (crest_at (map snd bump)) [0..<length bump]))"
    using identify_crest_first [OF increasing_bump ne] unfolding sub .
  then show ?thesis unfolding f by (simp add: bump_def)
qed

lemma shore_not_after_peak:
  assumes "m < i" "i < length p" "snd (p ! i) \<le> snd (p ! m)"
  shows "\<not> shore_at p i"
proof -
  have "take i (map snd p) ! m = snd (p ! m)" using assms by simp
  moreover have "m < length (take i (map snd p))" using assms by simp
  ultimately have "snd (p ! m) \<in> set (take i (map snd p))" by (metis nth_mem)
  then have "snd (p ! m) \<le> highest (take i (map snd p))" by (rule highest_ge)
  then show ?thesis using assms(3) by (simp add: shore_at_def)
qed

lemma identify_shore_bump: "identify_shore bump = Inr (Some 0)"
proof -
  have "\<not> shore_at bump i" if i: "i < length bump" for i
  proof -
    consider "i = 0" | "i = 1" | "1 < i" by arith
    then show ?thesis
    proof cases
      case 1
      then show ?thesis by (simp add: shore_at_def)
    next
      case 2
      then show ?thesis
        by (simp add: shore_at_def bump_def slope_at_def lowest_def upt_conv_Cons)
    next
      case 3
      have "\<forall>s \<in> set bump. snd s \<le> 2" by (simp add: bump_def)
      then have "snd (bump ! i) \<le> 2" using i by simp
      moreover have "snd (bump ! 1) = 2" by (simp add: bump_def)
      ultimately show ?thesis using shore_not_after_peak [OF 3 i] by simp
    qed
  qed
  then have "\<not> (\<exists>i < length bump. shore_at bump i)" by blast
  moreover have "bump \<noteq> []" by (simp add: bump_def)
  ultimately show ?thesis
    using identify_shore_general [OF increasing_bump] by (simp add: bump_def)
qed

lemma identify_toe_bump: "identify_toe polyfit bump 0 1 = Inr None"
proof -
  have sub: "loc_slice 0 1 bump = [(0, 0), (1, 2)]"
    by (simp add: loc_slice_def loc_from_def bump_def)
  obtain k where k: "k < length [(0::real, 0::real), (1, 2)]"
    "identify_toe polyfit bump 0 1 =
       Inr (if fst ([(0::real, 0::real), (1, 2)] ! k) = 0 \<or> fst ([(0::real, 0::real), (1, 2)] ! k) = 1
            then None else Some (fst ([(0::real, 0::real), (1, 2)] ! k)))"
    using identify_toe_position [of 0 1 bump polyfit] unfolding sub by blast
  have "k = 0 \<or> k = 1" using k(1) by auto
  then show ?thesis using k(2) by auto
qed

lemma increasing_scenario_short: "increasing scenario_short"
  by (simp add: scenario_short_def increasing_def)

lemma identify_crest_scenario_short: "identify_crest scenario_short 0 = Inr None"
proof -
  have sub: "loc_from 0 scenario_short = scenario_short"
    by (simp add: loc_from_def scenario_short_def)
  have ne: "loc_from 0 scenario_short \<noteq> []" by (simp add: sub) (simp add: scenario_short_def)
  have "\<forall>j < length scenario_short. \<not> crest_at (map snd scenario_short) j"
    by (simp add: crest_at_def scenario_short_def)
  then have f: "find (crest_at (map snd scenario_short)) [0..<length scenario_short] = None"
    by (rule find_none)
  have "identify_crest scenario_short 0 =
          Inr (map_option (\<lambda>i. fst (scenario_short ! i))
                 (find (crest_at (map snd scenario_short)) [0..<length scenario_short]))"
    using identify_crest_first [OF increasing_scenario_short ne] unfolding sub .
  then show ?thesis unfolding f by simp
qed

lemma increasing_dune: "increasing dune"
  by (simp add: dune_def increasing_def)

lemma dune_length: "length dune = 23"
  by (simp add: dune_def)

lemma identify_shore_dune: "identify_shore dune = Inr (Some 0)"
proof -
  have "\<not> shore_at dune i" if i: "i < length dune" for i
  proof -
    consider "i = 0" | "i = 1" | "i = 2" | "2 < i" by arith
    then show ?thesis
    proof cases
      case 1
      then show ?thesis by (simp add: shore_at_def)
    next
      case 2
      then show ?thesis by (simp add: shore_at_def dune_def)
    next
      case 3
      then show ?thesis
        by (simp add: shore_at_def dune_def slope_at_def lowest_def upt_conv_Cons)
    next
      case 4
      have "\<forall>s \<in> set dune. snd s \<le> 3" by (simp add: dune_def)
      then have "snd (dune ! i) \<le> 3" using i by simp
      moreover have "snd (dune ! 2) = 3" by (simp add: dune_def)
      ultimately show ?thesis using shore_not_after_peak [OF 4 i] by simp
    qed
  qed
  then have "\<not> (\<exists>i < length dune. shore_at dune i)" by blast
  moreover have "dune \<noteq> []" by (simp add: dune_def)
  ultimately show ?thesis
    using identify_shore_general [OF increasing_dune] by (simp add: dune_def)
qed

lemma identify_crest_dune: "identify_crest dune 0 = Inr (Some 2)"
proof -
  have sub: "loc_from 0 dune = dune" by (simp add: loc_from_def dune_def)
  have ne: "loc_from 0 dune \<noteq> []" by (simp add: loc_from_def dune_def)
  have c2: "crest_at (map snd dune) 2"
    by (simp add: dune_def crest_at_def highest_def lowest_def)
  have c0: "\<not> crest_at (map snd dune) 0" by (simp add: crest_at_def)
  have c1: "\<not> crest_at (map snd dune) 1" by (simp add: dune_def crest_at_def highest_def)
  have "\<forall>j < 2. \<not> crest_at (map snd dune) j"
    using c0 c1 by (auto simp: less_Suc_eq numeral_2_eq_2)
  then have f: "find (crest_at (map snd dune)) [0..<length dune] = Some 2"
    using find_first [of 2 "length dune" "crest_at (map snd dune)"] c2 by (simp add: dune_length)
  have "identify_crest dune 0 =
          Inr (map_option (\<lambda>i. fst (dune ! i)) (find (crest_at (map snd dune)) [0..<length dune]))"
    using identify_crest_first [OF increasing_dune ne] unfolding sub .
  then show ?thesis unfolding f by (simp add: dune_def)
qed

lemma identify_toe_dune: "identify_toe zero_fit dune 0 2 = Inr (Some 1)"
  by (simp add: identify_toe_def dune_def zero_fit_def loc_slice_def loc_from_def idxmin_def lowest_def)

lemma y_at_dune:
  "y_at dune 0 = Some 1" "y_at dune 1 = Some 0" "y_at dune 2 = Some 3" "y_at dune 3 = Some 1"
  by (simp_all add: y_at_def dune_def)

text \<open>
  Claim C5. For a non-empty profile and any four detectors in the places of the four
  searches of \<open>identify_features\<close>: when a search returns None the result is None, the
  only message is the one of that landmark, and the result does not depend on the
  detectors of the later searches, which are not called; a result that is not None has
  all eight coordinates, those of four resolved searches. \<open>identify_features\<close> is this
  chain with the four detectors of the repository.
\<close>

theorem identify_features_all_or_nothing:
  assumes "p \<noteq> []"
  shows "identify_features polyfit p
           = identify_features_with identify_shore identify_crest (identify_toe polyfit) identify_heel p
     \<and> (shore p = Inr None \<longrightarrow>
          (\<forall>crest' toe' heel'. identify_features_with shore crest' toe' heel' p = ([NoShore], Inr None)))
     \<and> (shore p = Inr (Some sx) \<and> crest p sx = Inr None \<longrightarrow>
          (\<forall>toe' heel'. identify_features_with shore crest toe' heel' p = ([NoCrest], Inr None)))
     \<and> (shore p = Inr (Some sx) \<and> crest p sx = Inr (Some cx) \<and> toe p sx cx = Inr None \<longrightarrow>
          (\<forall>heel'. identify_features_with shore crest toe heel' p = ([NoToe], Inr None)))
     \<and> (shore p = Inr (Some sx) \<and> crest p sx = Inr (Some cx) \<and> toe p sx cx = Inr (Some tx)
          \<and> heel p cx = Inr None \<longrightarrow>
          identify_features_with shore crest toe heel p = ([NoHeel], Inr None))
     \<and> (identify_features_with shore crest toe heel p = (out, Inr (Some f)) \<longrightarrow>
          out = [] \<and> (\<exists>sx sy tx ty cx cy hx hy.
            f = (sx, sy, tx, ty, cx, cy, hx, hy)
            \<and> shore p = Inr (Some sx) \<and> crest p sx = Inr (Some cx)
            \<and> toe p sx cx = Inr (Some tx) \<and> heel p cx = Inr (Some hx)
            \<and> y_at p sx = Some sy \<and> y_at p tx = Some ty \<and> y_at p cx = Some cy \<and> y_at p hx = Some hy))"
  using assms chain_no_shore [of p shore] chain_no_crest [of p shore sx crest]
    chain_no_toe [of p shore sx crest cx toe] chain_no_heel [of p shore sx crest cx toe tx heel]
    chain_complete [of shore crest toe heel p out f]
  by (simp add: identify_features_def)

lemma dune_complete_with_heel_at_3:
  "identify_features_with identify_shore identify_crest (identify_toe zero_fit) heel_at_3 dune
     = ([], Inr (Some (0, 1, 1, 0, 2, 3, 3, 1)))"
  by (simp add: identify_features_with_def identify_shore_dune identify_crest_dune identify_toe_dune
      heel_at_3_def y_at_dune)

theorem identify_features_all_or_nothing_witness:
  "scenario \<noteq> [] \<and> identify_shore scenario = Inr None
     \<and> identify_features zero_fit scenario = ([NoShore], Inr None)
   \<and> scenario_short \<noteq> [] \<and> identify_shore scenario_short = Inr (Some 0)
     \<and> identify_crest scenario_short 0 = Inr None
     \<and> identify_features zero_fit scenario_short = ([NoCrest], Inr None)
   \<and> bump \<noteq> [] \<and> identify_shore bump = Inr (Some 0) \<and> identify_crest bump 0 = Inr (Some 1)
     \<and> identify_toe zero_fit bump 0 1 = Inr None
     \<and> identify_features zero_fit bump = ([NoToe], Inr None)
   \<and> dune \<noteq> [] \<and> identify_shore dune = Inr (Some 0) \<and> identify_crest dune 0 = Inr (Some 2)
     \<and> identify_toe zero_fit dune 0 2 = Inr (Some 1) \<and> identify_heel dune 2 = Inr None
     \<and> identify_features zero_fit dune = ([NoHeel], Inr None)
   \<and> identify_features_with identify_shore identify_crest (identify_toe zero_fit) heel_at_3 dune
         = ([], Inr (Some (0, 1, 1, 0, 2, 3, 3, 1)))
     \<and> heel_at_3 dune 2 = Inr (Some 3)"
proof -
  have n1: "scenario \<noteq> []" by (simp add: scenario_def)
  have n2: "scenario_short \<noteq> []" by (simp add: scenario_short_def)
  have n3: "bump \<noteq> []" by (simp add: bump_def)
  have n4: "dune \<noteq> []" by (simp add: dune_def)
  have f1: "identify_features zero_fit scenario = ([NoShore], Inr None)"
    using identify_features_all_or_nothing [OF n1, where polyfit = zero_fit and shore = identify_shore]
      identify_shore_scenario by simp
  have f2: "identify_features zero_fit scenario_short = ([NoCrest], Inr None)"
    using identify_features_all_or_nothing [OF n2, where polyfit = zero_fit and shore = identify_shore
        and crest = identify_crest and sx = 0]
      identify_shore_scenario_short identify_crest_scenario_short by simp
  have f3: "identify_features zero_fit bump = ([NoToe], Inr None)"
    using identify_features_all_or_nothing [OF n3, where polyfit = zero_fit and shore = identify_shore
        and crest = identify_crest and sx = 0 and cx = 1 and toe = "identify_toe zero_fit"]
      identify_shore_bump identify_crest_bump identify_toe_bump [of zero_fit] by simp
  have f4: "identify_features zero_fit dune = ([NoHeel], Inr None)"
    using identify_features_all_or_nothing [OF n4, where polyfit = zero_fit and shore = identify_shore
        and crest = identify_crest and sx = 0 and cx = 2 and toe = "identify_toe zero_fit" and tx = 1
        and heel = identify_heel]
      identify_shore_dune identify_crest_dune identify_toe_dune identify_heel_absent [of dune 2] by simp
  have f5: "heel_at_3 dune 2 = Inr (Some 3)"
    using identify_features_all_or_nothing [OF n4, where shore = identify_shore
        and crest = identify_crest and toe = "identify_toe zero_fit" and heel = heel_at_3
        and out = "[]" and f = "(0, 1, 1, 0, 2, 3, 3, 1)"]
      dune_complete_with_heel_at_3 by simp
  show ?thesis
    using n1 n2 n3 n4 f1 f2 f3 f4 f5 identify_shore_scenario identify_shore_scenario_short
      identify_crest_scenario_short identify_shore_bump identify_crest_bump identify_toe_bump [of zero_fit]
      identify_shore_dune identify_crest_dune identify_toe_dune identify_heel_absent [of dune 2]
      dune_complete_with_heel_at_3
    by simp
qed

subsection \<open>Where the landmarks lie\<close>

lemma identify_shore_in_range:
  assumes "increasing p" and "identify_shore p = Inr (Some sx)"
  shows "sx \<in> fst ` set p"
proof -
  have ne: "p \<noteq> []" using assms(2) identify_shore_empty by auto
  then have "sx = fst (p ! 0)"
    using identify_shore_general [OF assms(1) ne] assms(2) by (auto split: if_splits)
  then show ?thesis using ne by (auto intro!: image_eqI [of _ _ "p ! 0"])
qed

lemma identify_crest_in_range:
  assumes inc: "increasing p" and c: "identify_crest p sx = Inr (Some cx)"
  shows "cx \<in> fst ` set p \<and> sx < cx"
proof -
  let ?sub = "loc_from sx p"
  have ne: "?sub \<noteq> []"
  proof
    assume "?sub = []"
    then have "identify_crest p sx = Inl ValueError"
      by (simp add: identify_crest_def column_def shift_def rolling_def expanding_max_def
          ssub_def sgt_def sgt_c_def band_def idxmax_def)
    then show False using c by simp
  qed
  have "map_option (\<lambda>i. fst (?sub ! i)) (find (crest_at (map snd ?sub)) [0..<length ?sub]) = Some cx"
    using identify_crest_first [OF inc ne] c by simp
  then obtain i where i: "find (crest_at (map snd ?sub)) [0..<length ?sub] = Some i" "cx = fst (?sub ! i)"
    by (cases "find (crest_at (map snd ?sub)) [0..<length ?sub]") auto
  then have il: "i < length ?sub" and pos: "0 < i"
    by (auto simp: find_Some_iff crest_at_def)
  have sub: "?sub = filter (\<lambda>s. sx \<le> fst s) p" using inc by (rule loc_from_filter)
  have "?sub ! 0 \<in> set ?sub" using ne by simp
  then have lo: "sx \<le> fst (?sub ! 0)" unfolding sub by simp
  have "increasing ?sub" using inc by (rule increasing_loc_from)
  then have "map fst ?sub ! 0 < map fst ?sub ! i"
    unfolding increasing_def using pos il by (intro sorted_wrt_nth_less) simp_all
  then have "fst (?sub ! 0) < fst (?sub ! i)" using il ne by simp
  moreover have "?sub ! i \<in> set p" using il nth_mem [OF il] unfolding sub by simp
  ultimately show ?thesis using lo i(2) by auto
qed

lemma identify_toe_in_range:
  assumes inc: "increasing p" and t: "identify_toe polyfit p sx cx = Inr (Some tx)"
  shows "tx \<in> fst ` set p \<and> sx < tx \<and> tx < cx"
proof -
  have "tx \<in> fst ` set (loc_slice sx cx p) \<and> tx \<noteq> sx \<and> tx \<noteq> cx"
    using t by (rule identify_toe_between)
  then show ?thesis unfolding loc_slice_filter [OF inc] by auto
qed

section \<open>Volume\<close>

text \<open>\<open>numpy.diff\<close> and \<open>numpy.trapz\<close>:
  \<open>d = diff(x); (d * (y[1:] + y[:-1]) / 2.0).sum()\<close>.\<close>

definition diff :: "real list \<Rightarrow> real list" where
  "diff v = map2 (\<lambda>lo hi. hi - lo) (butlast v) (tl v)"

definition trapz :: "real list \<Rightarrow> real list \<Rightarrow> real" where
  "trapz y x = sum_list (map2 (\<lambda>d s. d * s / 2) (diff x) (map2 (+) (tl y) (butlast y)))"

definition measure_volume :: "profile \<Rightarrow> real \<Rightarrow> real \<Rightarrow> real \<Rightarrow> real \<Rightarrow> real" where
  "measure_volume profile_xy start_x end_x profile_spacing base_elevation =
     (let subset = loc_slice start_x end_x profile_xy;
          x = map fst subset;
          y = map (\<lambda>s. snd s - base_elevation) subset
      in trapz y x * profile_spacing)"

text \<open>The trapezoidal rule as the specification words it: the sum, over consecutive
  samples, of the width times the mean of the two heights.\<close>

fun trapezoid :: "sample list \<Rightarrow> real" where
  "trapezoid (s # t # r) = (fst t - fst s) * (snd s + snd t) / 2 + trapezoid (t # r)"
| "trapezoid _ = 0"

definition spec_volume :: "profile \<Rightarrow> real \<Rightarrow> real \<Rightarrow> real \<Rightarrow> real \<Rightarrow> real" where
  "spec_volume p a b s c =
     trapezoid (map (\<lambda>q. (fst q, snd q - c)) (filter (\<lambda>q. a \<le> fst q \<and> fst q \<le> b) p)) * s"

lemma trapz_trapezoid: "trapz (map snd q) (map fst q) = trapezoid q"
proof (induction q rule: trapezoid.induct)
  case (1 s t r)
  then show ?case by (simp add: trapz_def diff_def)
qed (simp_all add: trapz_def diff_def)

lemma measure_volume_filter:
  "increasing p \<Longrightarrow> measure_volume p a b s c = spec_volume p a b s c"
proof -
  assume inc: "increasing p"
  let ?q = "map (\<lambda>q. (fst q, snd q - c)) (filter (\<lambda>q. a \<le> fst q \<and> fst q \<le> b) p)"
  have x: "map fst (filter (\<lambda>q. a \<le> fst q \<and> fst q \<le> b) p) = map fst ?q"
    by (simp add: comp_def)
  have y: "map (\<lambda>s. snd s - c) (filter (\<lambda>q. a \<le> fst q \<and> fst q \<le> b) p) = map snd ?q"
    by (simp add: comp_def)
  show ?thesis
    unfolding measure_volume_def spec_volume_def Let_def loc_slice_filter [OF inc] x y
    by (simp only: trapz_trapezoid)
qed

lemma increasing_at_most_one:
  "increasing p \<Longrightarrow> length (filter (\<lambda>s. fst s = a) p) \<le> 1"
proof (induction p)
  case Nil
  then show ?case by simp
next
  case (Cons s p)
  have inc: "increasing p" using Cons.prems by (simp add: increasing_def)
  show ?case
  proof (cases "fst s = a")
    case True
    have "\<forall>t\<in>set p. fst t \<noteq> a" using Cons.prems True by (auto simp: increasing_def)
    then have "filter (\<lambda>s. fst s = a) p = []" by (simp add: filter_empty_conv)
    then show ?thesis by simp
  next
    case False
    then show ?thesis using Cons.IH [OF inc] by simp
  qed
qed

lemma trapezoid_short: "length q \<le> 1 \<Longrightarrow> trapezoid q = 0"
  by (cases q rule: trapezoid.cases) simp_all

lemma measure_volume_backwards:
  assumes inc: "increasing p" and ab: "a \<le> b"
  shows "measure_volume p b a s c = 0"
proof -
  have "filter (\<lambda>q. b \<le> fst q \<and> fst q \<le> a) p = filter (\<lambda>q. fst q = a \<and> a = b) p"
    using ab by (intro filter_cong) auto
  also have "length \<dots> \<le> length (filter (\<lambda>s. fst s = a) p)"
    by (induction p) auto
  finally have "length (filter (\<lambda>q. b \<le> fst q \<and> fst q \<le> a) p) \<le> 1"
    using increasing_at_most_one [OF inc, of a] by simp
  then have "trapezoid (map (\<lambda>q. (fst q, snd q - c)) (filter (\<lambda>q. b \<le> fst q \<and> fst q \<le> a) p)) = 0"
    by (intro trapezoid_short) simp
  then show ?thesis by (simp add: measure_volume_filter [OF inc] spec_volume_def)
qed

lemma increasing_two_point: "increasing [(0, 5), (10, 5)]"
  by (simp add: increasing_def)

lemma two_point_slice: "loc_slice 0 10 [(0, 5), (10, 5)] = [(0, 5), (10, 5)]"
  by (simp add: loc_slice_def loc_from_def)

lemma two_point_base5: "measure_volume [(0, 5), (10, 5)] 0 10 1 5 = 0"
  by (simp add: measure_volume_def two_point_slice trapz_def diff_def)

lemma two_point_base0: "measure_volume [(0, 5), (10, 5)] 0 10 1 0 = 50"
  by (simp add: measure_volume_def two_point_slice trapz_def diff_def)

lemma two_point_reversed: "measure_volume [(0, 5), (10, 5)] 10 0 1 0 = 0"
  by (simp add: measure_volume_def loc_slice_def loc_from_def trapz_def diff_def)

text \<open>
  Claim C8. On a profile with increasing x, \<open>measure_volume\<close> is the trapezoidal integral
  of (elevation minus base elevation) over the samples with \<open>start_x \<le> x \<le> end_x\<close>,
  times the profile spacing. The flat two-point profile (0,5),(10,5) with spacing 1 has
  volume 0 above base elevation 5 and volume 50 above base elevation 0.
\<close>

theorem measure_volume_trapezoidal:
  "(increasing p \<longrightarrow> start_x \<le> end_x \<longrightarrow>
      measure_volume p start_x end_x spacing base = spec_volume p start_x end_x spacing base)
   \<and> measure_volume [(0, 5), (10, 5)] 0 10 1 5 = 0
   \<and> measure_volume [(0, 5), (10, 5)] 0 10 1 0 = 50"
  using measure_volume_filter two_point_base5 two_point_base0 by blast

theorem measure_volume_trapezoidal_witness:
  "increasing [(0, 5), (10, 5)] \<and> (0::real) \<le> 10
   \<and> measure_volume [(0, 5), (10, 5)] 0 10 1 0 = spec_volume [(0, 5), (10, 5)] 0 10 1 0
   \<and> spec_volume [(0, 5), (10, 5)] 0 10 1 0 = 50"
  using measure_volume_trapezoidal [of "[(0, 5), (10, 5)]" 0 10 1 0]
  by (simp add: increasing_def spec_volume_def)

text \<open>
  Claim C10, as stated: the volume over [a,b] is the negative of the volume over [b,a].
  It fails: for bounds in descending order the label slice is empty and the integral of
  no samples is 0, whatever the volume over the ascending bounds is.
\<close>

theorem measure_volume_antisymmetry_counterexample:
  "measure_volume [(0, 5), (10, 5)] 0 10 1 0 \<noteq> - 1 * measure_volume [(0, 5), (10, 5)] 10 0 1 0"
  by (simp add: measure_volume_def loc_slice_def loc_from_def trapz_def diff_def)

text \<open>
  Claim C10, amended. On a profile with increasing x and \<open>a \<le> b\<close>, the volume over the
  bounds taken in the order [b,a] is 0, so the volume over [a,b] is the negative of the
  volume over [b,a] exactly when the volume over [a,b] is itself 0.
\<close>

theorem measure_volume_reversed_bounds:
  assumes "increasing p" and "a \<le> b"
  shows "measure_volume p b a s c = 0
         \<and> (measure_volume p a b s c = - 1 * measure_volume p b a s c
              \<longleftrightarrow> measure_volume p a b s c = 0)"
  using measure_volume_backwards [OF assms] by simp

theorem measure_volume_reversed_bounds_witness:
  "increasing [(0, 5), (10, 5)] \<and> (0::real) \<le> 10
   \<and> measure_volume [(0, 5), (10, 5)] 10 0 1 0 = 0
   \<and> measure_volume [(0, 5), (10, 5)] 0 10 1 0 = 50"
  using measure_volume_reversed_bounds [of "[(0, 5), (10, 5)]" 0 10 1 0]
    increasing_two_point two_point_base0 by simp

section \<open>Volumes of all profiles\<close>

text \<open>A row of the dataset read by \<open>read_mask_csvs\<close>: columns state, segment, profile, x, y.\<close>

record row =
  row_state :: nat
  row_segment :: nat
  row_profile :: nat
  row_x :: real
  row_y :: real

type_synonym identity = "nat \<times> nat \<times> nat"

definition identity_of :: "row \<Rightarrow> identity" where
  "identity_of r = (row_state r, row_segment r, row_profile r)"

text \<open>\<open>groupby(["state", "segment", "profile"])\<close>: the groups in ascending order of their
  key, each group's rows in dataset order.\<close>

definition groupby :: "row list \<Rightarrow> (identity \<times> row list) list" where
  "groupby xy_data =
     map (\<lambda>k. (k, filter (\<lambda>r. identity_of r = k) xy_data)) (sort (remdups (map identity_of xy_data)))"

definition xy_of :: "row list \<Rightarrow> profile" where
  "xy_of rows = map (\<lambda>r. (row_x r, row_y r)) rows"

text \<open>\<open>xy_data["x"].iat[1] - xy_data["x"].iat[0]\<close>; \<open>iat\<close> raises IndexError out of range.\<close>

definition profile_spacing :: "row list \<Rightarrow> error + real" where
  "profile_spacing xy_data =
     (if length xy_data < 2 then Inl IndexError
      else Inr (row_x (xy_data ! 1) - row_x (xy_data ! 0)))"

definition measure_feature_volumes ::
  "row list \<Rightarrow> real list \<Rightarrow> real list \<Rightarrow> real list \<Rightarrow> error + real list" where
  "measure_feature_volumes xy_data start_values end_values base_elevations =
     (case profile_spacing xy_data of
        Inl e \<Rightarrow> Inl e
      | Inr spacing \<Rightarrow>
          Inr (map (\<lambda>((index, profile_xy), start_x, end_x, base_y).
                      measure_volume (xy_of profile_xy) start_x end_x spacing base_y)
                 (zip (groupby xy_data) (zip start_values (zip end_values base_elevations)))))"

text \<open>The spacing as the specification words it: the x of the first row of the second
  profile of the dataset minus the x of the first row of its first profile.\<close>

definition spec_profile_spacing :: "row list \<Rightarrow> real option" where
  "spec_profile_spacing xy_data =
     (case xy_data of
        [] \<Rightarrow> None
      | r # rs \<Rightarrow>
          (case dropWhile (\<lambda>q. identity_of q = identity_of r) rs of
             [] \<Rightarrow> None
           | q # _ \<Rightarrow> Some (row_x q - row_x r)))"

text \<open>Two parallel transects of one segment, each sampled at x = 0 and x = 1.\<close>

definition two_lines :: "row list" where
  "two_lines =
     [\<lparr>row_state = 29, row_segment = 1, row_profile = 1, row_x = 0, row_y = 2\<rparr>,
      \<lparr>row_state = 29, row_segment = 1, row_profile = 1, row_x = 1, row_y = 4\<rparr>,
      \<lparr>row_state = 29, row_segment = 1, row_profile = 2, row_x = 0, row_y = 1\<rparr>,
      \<lparr>row_state = 29, row_segment = 1, row_profile = 2, row_x = 1, row_y = 1\<rparr>]"

lemma groupby_two_lines:
  "groupby two_lines =
     [((29, 1, 1), [\<lparr>row_state = 29, row_segment = 1, row_profile = 1, row_x = 0, row_y = 2\<rparr>,
                    \<lparr>row_state = 29, row_segment = 1, row_profile = 1, row_x = 1, row_y = 4\<rparr>]),
      ((29, 1, 2), [\<lparr>row_state = 29, row_segment = 1, row_profile = 2, row_x = 0, row_y = 1\<rparr>,
                    \<lparr>row_state = 29, row_segment = 1, row_profile = 2, row_x = 1, row_y = 1\<rparr>])]"
  by (simp add: groupby_def two_lines_def identity_of_def less_eq_prod_def)

lemma profile_spacing_two_lines: "profile_spacing two_lines = Inr 1"
  by (simp add: profile_spacing_def two_lines_def)

lemma volumes_two_lines: "measure_feature_volumes two_lines [0, 0] [1, 1] [0, 0] = Inr [3, 1]"
  by (simp add: measure_feature_volumes_def profile_spacing_two_lines groupby_two_lines xy_of_def
      measure_volume_def loc_slice_def loc_from_def trapz_def diff_def)

text \<open>
  Claim C9, as stated: the spacing used for the volumes is the gap between the x-origins of
  the first two distinct profiles of the dataset. It fails on two transects that both
  start at x = 0 and are sampled every 1: that gap is 0, the spacing the code uses is 1,
  and the volumes are not 0.
\<close>

theorem profile_spacing_counterexample:
  "spec_profile_spacing two_lines = Some 0 \<and> profile_spacing two_lines = Inr 1
   \<and> measure_feature_volumes two_lines [0, 0] [1, 1] [0, 0] = Inr [3, 1]"
  using profile_spacing_two_lines volumes_two_lines
  by (simp add: spec_profile_spacing_def two_lines_def identity_of_def)

text \<open>
  Claim C9, amended. For a dataset of at least two rows, one call of
  \<open>measure_feature_volumes\<close> computes every profile's volume with the same spacing: the x of
  the second row of the dataset minus the x of its first row.
\<close>

theorem measure_feature_volumes_spacing:
  assumes "2 \<le> length xy_data"
  shows "\<exists>vs. measure_feature_volumes xy_data starts ends bases = Inr vs
           \<and> length vs = min (length (groupby xy_data)) (min (length starts) (min (length ends) (length bases)))
           \<and> (\<forall>i < length vs.
                 vs ! i = measure_volume (xy_of (snd (groupby xy_data ! i))) (starts ! i) (ends ! i)
                            (row_x (xy_data ! 1) - row_x (xy_data ! 0)) (bases ! i))"
  using assms
  by (simp add: measure_feature_volumes_def profile_spacing_def split_beta)

theorem measure_feature_volumes_spacing_witness:
  "2 \<le> length two_lines
   \<and> (\<exists>vs. measure_feature_volumes two_lines [0, 0] [1, 1] [0, 0] = Inr vs \<and> length vs = 2
          \<and> vs ! 0 = measure_volume (xy_of (snd (groupby two_lines ! 0))) 0 1 1 0)"
proof -
  have len: "2 \<le> length two_lines" by (simp add: two_lines_def)
  have x: "row_x (two_lines ! 1) - row_x (two_lines ! 0) = 1" by (simp add: two_lines_def)
  from measure_feature_volumes_spacing [OF len, of "[0, 0]" "[1, 1]" "[0, 0]"]
  obtain vs where vs: "measure_feature_volumes two_lines [0, 0] [1, 1] [0, 0] = Inr vs"
      "length vs = min (length (groupby two_lines)) (min (length [0::real, 0]) (min (length [1::real, 1]) (length [0::real, 0])))"
      "\<forall>i < length vs. vs ! i = measure_volume (xy_of (snd (groupby two_lines ! i))) ([0, 0] ! i) ([1, 1] ! i)
                            (row_x (two_lines ! 1) - row_x (two_lines ! 0)) ([0, 0] ! i)"
    by blast
  have l2: "length vs = 2" using vs(2) by (simp add: groupby_two_lines)
  then have "vs ! 0 = measure_volume (xy_of (snd (groupby two_lines ! 0))) 0 1 1 0"
    using vs(3) x by auto
  then show ?thesis using len vs(1) l2 by blast
qed

section \<open>Plausibility filter\<close>

text \<open>
  A cell of the metrics table is a float that, unlike the cells of a profile, may be
  infinite or NaN (the slopes and the volume ratio are quotients). Comparisons with NaN
  are false, as in IEEE arithmetic.
\<close>

datatype fval = NaN | NegInf | Fin real | PosInf

fun flt :: "fval \<Rightarrow> real \<Rightarrow> bool" where
  "flt NaN c = False"
| "flt NegInf c = True"
| "flt (Fin v) c = (v < c)"
| "flt PosInf c = False"

fun fgt :: "fval \<Rightarrow> real \<Rightarrow> bool" where
  "fgt NaN c = False"
| "fgt NegInf c = False"
| "fgt (Fin v) c = (v > c)"
| "fgt PosInf c = True"

record metrics =
  dune_height :: fval
  beach_width :: fval
  dune_toe :: fval
  dune_crest :: fval
  dune_length :: fval
  beach_slope :: fval
  dune_slope :: fval
  beach_vol :: fval
  dune_vol :: fval
  bd_ratio :: fval

definition columns :: "metrics \<Rightarrow> fval list" where
  "columns r = [dune_height r, beach_width r, dune_toe r, dune_crest r, dune_length r,
                beach_slope r, dune_slope r, beach_vol r, dune_vol r, bd_ratio r]"

definition dropna :: "metrics list \<Rightarrow> metrics list" where
  "dropna t = filter (\<lambda>r. NaN \<notin> set (columns r)) t"

definition filtered_beach_data :: "metrics list \<Rightarrow> metrics list" where
  "filtered_beach_data beach_data =
     dropna (select beach_data
       (band (band (band (band (band (band (band (band
          (map (\<lambda>r. flt (dune_vol r) 300) beach_data)
          (map (\<lambda>r. flt (beach_vol r) 500) beach_data))
          (map (\<lambda>r. fgt (dune_height r) 1) beach_data))
          (map (\<lambda>r. flt (dune_height r) 10) beach_data))
          (map (\<lambda>r. fgt (dune_length r) 5) beach_data))
          (map (\<lambda>r. flt (dune_length r) 25) beach_data))
          (map (\<lambda>r. flt (dune_crest r) 20) beach_data))
          (map (\<lambda>r. fgt (beach_width r) 10) beach_data))
          (map (\<lambda>r. flt (beach_width r) 60) beach_data)))"

text \<open>The predicates of the claim: the ranges, and a row of finite values only.\<close>

definition in_ranges :: "metrics \<Rightarrow> bool" where
  "in_ranges r \<longleftrightarrow>
     flt (dune_vol r) 300 \<and> flt (beach_vol r) 500
     \<and> fgt (dune_height r) 1 \<and> flt (dune_height r) 10
     \<and> fgt (dune_length r) 5 \<and> flt (dune_length r) 25
     \<and> flt (dune_crest r) 20
     \<and> fgt (beach_width r) 10 \<and> flt (beach_width r) 60"

fun is_finite :: "fval \<Rightarrow> bool" where
  "is_finite (Fin v) = True"
| "is_finite _ = False"

definition all_finite :: "metrics \<Rightarrow> bool" where
  "all_finite r = list_all is_finite (columns r)"

text \<open>A plausible dune behind a beach whose volume above the shore elevation is 0: the
  ratio of the volumes, 100 / 0, is infinite.\<close>

definition flat_beach :: metrics where
  "flat_beach =
     \<lparr>dune_height = Fin 3, beach_width = Fin 30, dune_toe = Fin 1, dune_crest = Fin 4,
      dune_length = Fin 10, beach_slope = Fin 0, dune_slope = Fin (3 / 10),
      beach_vol = Fin 0, dune_vol = Fin 100, bd_ratio = PosInf\<rparr>"

lemma band_map: "band (map P t) (map Q t) = map (\<lambda>r. P r \<and> Q r) t"
  by (induction t) (simp_all add: band_def)

lemma select_map: "select t (map P t) = filter P t"
  by (induction t) (simp_all add: select_def)

lemma filtered_beach_data_filter:
  "filtered_beach_data t = filter (\<lambda>r. in_ranges r \<and> NaN \<notin> set (columns r)) t"
  unfolding filtered_beach_data_def dropna_def band_map select_map in_ranges_def
  by (simp add: conj_ac)

text \<open>
  Claim C7, as stated: a row is retained if and only if the range predicates hold and
  no value of the row is non-finite or missing. It fails for an infinite value in a
  column without a violated bound: the row \<open>flat_beach\<close> has an infinite volume ratio
  and is retained.
\<close>

theorem plausibility_filter_counterexample:
  "filtered_beach_data [flat_beach] = [flat_beach] \<and> in_ranges flat_beach \<and> \<not> all_finite flat_beach"
  by (simp add: filtered_beach_data_filter in_ranges_def all_finite_def columns_def flat_beach_def)

text \<open>
  Claim C7, amended. The filter keeps, in their order, exactly the rows for which all
  range predicates hold (dune_vol < 300, beach_vol < 500, 1 < dune_height < 10,
  5 < dune_length < 25, dune_crest < 20, 10 < beach_width < 60) and no column is NaN;
  a single failing field removes the whole row. Infinite values are not dropped.
\<close>

theorem plausibility_filter_retains:
  "filtered_beach_data t = filter (\<lambda>r. in_ranges r \<and> NaN \<notin> set (columns r)) t
   \<and> (r \<in> set (filtered_beach_data t) \<longleftrightarrow> r \<in> set t \<and> in_ranges r \<and> NaN \<notin> set (columns r))"
  by (auto simp: filtered_beach_data_filter)

theorem plausibility_filter_retains_witness:
  "filtered_beach_data [flat_beach, flat_beach\<lparr>dune_height := Fin (1 / 2)\<rparr>, flat_beach\<lparr>dune_toe := NaN\<rparr>]
     = [flat_beach]
   \<and> flat_beach \<in> set (filtered_beach_data [flat_beach, flat_beach\<lparr>dune_height := Fin (1 / 2)\<rparr>])"
  using plausibility_filter_retains
    [of "[flat_beach, flat_beach\<lparr>dune_height := Fin (1 / 2)\<rparr>, flat_beach\<lparr>dune_toe := NaN\<rparr>]" flat_beach]
    plausibility_filter_retains [of "[flat_beach, flat_beach\<lparr>dune_height := Fin (1 / 2)\<rparr>]" flat_beach]
  by (simp add: in_ranges_def columns_def flat_beach_def)

end
